theory Spec2Isabelle
  imports Main "HOL-Library.Word"
begin

section \<open>The primitive type catalogue\<close>

text \<open>
  The module \<^verbatim>\<open>tcstruct\<close> declares records through Python type annotations and leaves
  layout, storage and the byte codec to \<^verbatim>\<open>ctypes.Structure\<close>. The embedding has two
  layers. The functions of the module (\<^verbatim>\<open>_gettype\<close>, \<^verbatim>\<open>gettype\<close>,
  \<^verbatim>\<open>TCStructMeta.__new__\<close>, \<^verbatim>\<open>TCStruct.__init__\<close>, \<^verbatim>\<open>from_bytes\<close>,
  \<^verbatim>\<open>to_bytes\<close>) are translated line by line. The operations of \<^verbatim>\<open>ctypes\<close> they
  call (structure layout, field descriptors, \<^verbatim>\<open>from_buffer_copy\<close>, the setters and
  getters of the simple types) are modelled after CPython's documented behaviour on a
  platform whose scalar types are aligned to their own size.
\<close>

datatype byteorder = Little | Big

text \<open>The ten classes \<^verbatim>\<open>uint8_t\<close> ... \<^verbatim>\<open>float64_t\<close> with their \<^verbatim>\<open>_bitwidth\<close>
  and \<^verbatim>\<open>_signed\<close> attributes.\<close>

datatype kind = U8 | U16 | U32 | U64 | S8 | S16 | S32 | S64 | F32 | F64

fun bitwidth :: "kind \<Rightarrow> nat" where
  "bitwidth U8 = 8"
| "bitwidth U16 = 16"
| "bitwidth U32 = 32"
| "bitwidth U64 = 64"
| "bitwidth S8 = 8"
| "bitwidth S16 = 16"
| "bitwidth S32 = 32"
| "bitwidth S64 = 64"
| "bitwidth F32 = 32"
| "bitwidth F64 = 64"

fun is_signed :: "kind \<Rightarrow> bool" where
  "is_signed U8 = False"
| "is_signed U16 = False"
| "is_signed U32 = False"
| "is_signed U64 = False"
| "is_signed k = True"

fun is_float :: "kind \<Rightarrow> bool" where
  "is_float F32 = True"
| "is_float F64 = True"
| "is_float k = False"

definition bytewidth :: "kind \<Rightarrow> nat" where
  "bytewidth k = bitwidth k div 8"

text \<open>
  The host contributes \<^verbatim>\<open>sys.byteorder\<close>, a parameter \<open>host\<close> of every function
  that depends on it, and the floating-point conversions of the C runtime: IEEE-754
  binary64 to binary32 with rounding to nearest even (the assignment to a \<^verbatim>\<open>c_float\<close>),
  the exact widening back, and Python's conversion of an int to a float. A Python float
  is its binary64 bit pattern. A NaN keeps its sign and the upper bits of its payload
  and comes out quiet.
\<close>

definition round_half_even :: "int \<Rightarrow> nat \<Rightarrow> int" where
  "round_half_even x sh =
     (let q = x div 2 ^ sh; r = x mod 2 ^ sh; h = 2 ^ sh div 2
      in if h < r \<or> (r = h \<and> odd q) then q + 1 else q)"

text \<open>The position of the highest set bit.\<close>

function msb :: "int \<Rightarrow> nat" where
  "msb x = (if x < 2 then 0 else Suc (msb (x div 2)))"
  by pat_completeness auto
termination
  by (relation "measure nat") auto

definition double_to_float :: "64 word \<Rightarrow> 32 word" where
  "double_to_float d =
     (let s = uint d div 2 ^ 63; e = uint d div 2 ^ 52 mod 2 ^ 11; m = uint d mod 2 ^ 52;
          mag =
            (if e = 2047 then
               (if m = 0 then 2139095040
                else 2139095040 +
                  (if m div 2 ^ 29 < 2 ^ 22 then m div 2 ^ 29 + 2 ^ 22 else m div 2 ^ 29))
             else if e = 0 then 0
             else if 897 \<le> e then
               min 2139095040 ((e - 896) * 2 ^ 23 + (round_half_even (2 ^ 52 + m) 29 - 2 ^ 23))
             else round_half_even (2 ^ 52 + m) (nat (926 - e)))
      in word_of_int (s * 2 ^ 31 + mag))"

definition float_to_double :: "32 word \<Rightarrow> 64 word" where
  "float_to_double f =
     (let s = uint f div 2 ^ 31; e = uint f div 2 ^ 23 mod 2 ^ 8; m = uint f mod 2 ^ 23;
          mag =
            (if e = 255 then
               (if m = 0 then 2047 * 2 ^ 52
                else 2047 * 2 ^ 52 + (if m < 2 ^ 22 then m + 2 ^ 22 else m) * 2 ^ 29)
             else if e = 0 then
               (if m = 0 then 0
                else (int (msb m) + 874) * 2 ^ 52 + (m - 2 ^ msb m) * 2 ^ (52 - msb m))
             else (e + 896) * 2 ^ 52 + m * 2 ^ 29)
      in word_of_int (s * 2 ^ 63 + mag))"

text \<open>\<^verbatim>\<open>None\<close> is Python's \<^verbatim>\<open>OverflowError\<close>: int too large to convert to float.\<close>

definition int_to_double :: "int \<Rightarrow> 64 word option" where
  "int_to_double i =
     (let a = \<bar>i\<bar>; p = msb a;
          mag =
            (if a = 0 then 0
             else if p \<le> 52 then (int p + 1023) * 2 ^ 52 + (a * 2 ^ (52 - p) - 2 ^ 52)
             else (int p + 1023) * 2 ^ 52 + (round_half_even a (p - 52) - 2 ^ 52))
      in if 2047 * 2 ^ 52 \<le> mag then None
         else Some (word_of_int ((if i < 0 then 2 ^ 63 else 0) + mag)))"

section \<open>Type resolution: \<^verbatim>\<open>_gettype\<close> and \<^verbatim>\<open>gettype\<close>\<close>

text \<open>
  A \<^verbatim>\<open>ctypes\<close> type as far as the module can produce one: a simple type in native or
  in the other byte order, an array of a simple type, or an object that is no C type.
\<close>

datatype ctype = CSimple kind bool | CArray kind bool nat | NotCType

text \<open>
  An annotation: a \<^verbatim>\<open>tcstruct\<close> class with its optional \<^verbatim>\<open>_array\<close> attribute
  (\<^verbatim>\<open>uint8_t[4]\<close>), a generic alias \<^verbatim>\<open>Array[...]\<close> whose first argument is another
  annotation, or any other object.
\<close>

datatype annotation = TC kind "nat option" | ArrayOf annotation | Foreign

datatype error =
    DuplicateArgument   \<comment> \<open>the \<^verbatim>\<open>TypeError\<close> raised by \<^verbatim>\<open>TCStruct.__init__\<close>\<close>
  | BufferTooShort      \<comment> \<open>the \<^verbatim>\<open>ValueError\<close> of \<^verbatim>\<open>from_buffer_copy\<close>\<close>
  | CTypeError          \<comment> \<open>a \<^verbatim>\<open>TypeError\<close> raised inside \<^verbatim>\<open>ctypes\<close>\<close>
  | COverflowError      \<comment> \<open>\<^verbatim>\<open>OverflowError\<close>: int too large to convert to float\<close>
  | CRuntimeError       \<comment> \<open>\<^verbatim>\<open>RuntimeError\<close>: a tuple that does not fit its array\<close>
  | CAttributeError     \<comment> \<open>\<^verbatim>\<open>AttributeError\<close>: no \<^verbatim>\<open>_fields_\<close>\<close>

text \<open>\<^verbatim>\<open>x._ctype * x._array\<close>, else \<^verbatim>\<open>x._ctype\<close>, else \<^verbatim>\<open>x\<close> itself.\<close>

fun ctype_of :: "annotation \<Rightarrow> ctype" where
  "ctype_of (TC k (Some n)) = CArray k False n"
| "ctype_of (TC k None) = CSimple k False"
| "ctype_of a = NotCType"

text \<open>\<^verbatim>\<open>_gettype\<close>: one level of \<^verbatim>\<open>__args__\<close> is stripped first.\<close>

fun gettype' :: "annotation \<Rightarrow> ctype" where
  "gettype' (ArrayOf x) = ctype_of x"
| "gettype' x = ctype_of x"

text \<open>
  \<^verbatim>\<open>ctypes._endian._other_endian\<close>: a simple type answers with its other-endian
  variant, which for a one-byte type is the type itself; an array is rebuilt over the
  other-endian element type; anything else raises \<^verbatim>\<open>TypeError\<close>.
\<close>

fun other_endian :: "ctype \<Rightarrow> error + ctype" where
  "other_endian (CSimple k sw) = Inr (CSimple k (8 < bitwidth k))"
| "other_endian (CArray k sw n) = Inr (CArray k (8 < bitwidth k) n)"
| "other_endian NotCType = Inl CTypeError"

definition gettype :: "annotation \<Rightarrow> bool \<Rightarrow> error + ctype" where
  "gettype x swap = (if swap then other_endian (gettype' x) else Inr (gettype' x))"

section \<open>Structure layout of \<^verbatim>\<open>ctypes\<close>\<close>

fun sizeof :: "ctype \<Rightarrow> nat" where
  "sizeof (CSimple k sw) = bytewidth k"
| "sizeof (CArray k sw n) = n * bytewidth k"
| "sizeof NotCType = 0"

fun alignment :: "ctype \<Rightarrow> nat" where
  "alignment (CSimple k sw) = bytewidth k"
| "alignment (CArray k sw n) = bytewidth k"
| "alignment NotCType = 1"

text \<open>\<^verbatim>\<open>_pack_\<close>: when set and not zero it caps the alignment of every field.\<close>

definition field_align :: "nat option \<Rightarrow> ctype \<Rightarrow> nat" where
  "field_align pack t =
     (case pack of
        None \<Rightarrow> alignment t
      | Some p \<Rightarrow> if p = 0 then alignment t else min p (alignment t))"

definition align_up :: "nat \<Rightarrow> nat \<Rightarrow> nat" where
  "align_up off a = (if a \<noteq> 0 \<and> off mod a \<noteq> 0 then off + (a - off mod a) else off)"

type_synonym descriptor = "string \<times> nat \<times> ctype"

text \<open>
  One round of the layout loop: the running state is the descriptors created so far,
  the current offset and the largest alignment seen.
\<close>

definition add_field ::
  "nat option \<Rightarrow> descriptor list \<times> nat \<times> nat \<Rightarrow> string \<times> ctype \<Rightarrow> descriptor list \<times> nat \<times> nat"
where
  "add_field pack st f =
     (case st of (ds, off, al) \<Rightarrow>
      case f of (n, t) \<Rightarrow>
        let a = field_align pack t; p = align_up off a
        in (ds @ [(n, p, t)], p + sizeof t, max al a))"

text \<open>
  A class: the address of the list object its \<^verbatim>\<open>_fields_\<close> attribute resolves to,
  its \<^verbatim>\<open>_byteorder\<close> and \<^verbatim>\<open>_pack_\<close> attributes, and the layout \<^verbatim>\<open>ctypes\<close> computed
  when the class was created (descriptors of the base classes first).
\<close>

record tcclass =
  fields_ref :: "nat option"
  cls_byteorder :: "byteorder option"
  cls_pack :: "nat option"
  descriptors :: "descriptor list"
  cls_size :: nat
  cls_align :: nat

text \<open>The heap of list objects: an address is an index.\<close>

type_synonym heap = "(string \<times> ctype) list list"

text \<open>
  Creation of a structure type by \<^verbatim>\<open>ctypes\<close>. Without \<^verbatim>\<open>_fields_\<close> in the class
  body the layout of the base is inherited. With it, the new fields are laid out after
  the storage of the base class, whatever their names.
\<close>

definition struct_new ::
  "heap \<Rightarrow> tcclass \<Rightarrow> nat option \<Rightarrow> byteorder option \<Rightarrow> nat option \<Rightarrow> error + tcclass"
where
  "struct_new h base fref bo pack =
     (case fref of
        None \<Rightarrow> Inr (base\<lparr>cls_byteorder := bo, cls_pack := pack\<rparr>)
      | Some l \<Rightarrow>
          if \<exists>f \<in> set (h ! l). snd f = NotCType then Inl CTypeError
          else
            (case foldl (add_field pack) (descriptors base, cls_size base, cls_align base) (h ! l) of
               (ds, off, al) \<Rightarrow>
                 Inr \<lparr>fields_ref = Some l, cls_byteorder = bo, cls_pack = pack,
                      descriptors = ds, cls_size = align_up off al, cls_align = al\<rparr>))"

section \<open>The metaclass: \<^verbatim>\<open>TCStructMeta.__new__\<close>\<close>

text \<open>
  The class body: \<^verbatim>\<open>__annotations__\<close> (an ordered dictionary, when present), and the
  attributes \<^verbatim>\<open>_fields_\<close> (the address of a list object), \<^verbatim>\<open>_byteorder\<close> (whose
  value may be \<^verbatim>\<open>None\<close>) and \<^verbatim>\<open>_pack_\<close> when the body binds them.
\<close>

record attrs =
  annotations :: "(string \<times> annotation) list option"
  a_fields :: "nat option"
  a_byteorder :: "byteorder option option"
  a_pack :: "nat option"

definition startswith_underscore :: "string \<Rightarrow> bool" where
  "startswith_underscore s = (case s of [] \<Rightarrow> False | c # cs \<Rightarrow> c = CHR ''_'')"

text \<open>The list comprehension of lines 195 to 197; the first failing \<^verbatim>\<open>gettype\<close> ends it.\<close>

fun new_fields :: "bool \<Rightarrow> (string \<times> annotation) list \<Rightarrow> error + (string \<times> ctype) list" where
  "new_fields swap [] = Inr []"
| "new_fields swap ((aname, atype) # rest) =
     (if startswith_underscore aname then new_fields swap rest
      else
        (case gettype atype swap of
           Inl e \<Rightarrow> Inl e
         | Inr t \<Rightarrow>
             (case new_fields swap rest of
                Inl e \<Rightarrow> Inl e
              | Inr fs \<Rightarrow> Inr ((aname, t) # fs))))"

text \<open>
  \<^verbatim>\<open>__new__\<close> for a class with the single base \<open>base\<close>. The heap is returned in
  every case: an \<^verbatim>\<open>extend\<close> that happened before \<^verbatim>\<open>ctypes\<close> refused the class stays.
  The \<^verbatim>\<open>print\<close> of line 169 writes to standard output only and is left out.
\<close>

definition new_class ::
  "byteorder \<Rightarrow> heap \<Rightarrow> tcclass \<Rightarrow> attrs \<Rightarrow> heap \<times> (error + tcclass)"
where
  "new_class host h base a =
     (let byteorder = (case a_byteorder a of Some b \<Rightarrow> b | None \<Rightarrow> cls_byteorder base);
          pack = (case a_pack a of Some p \<Rightarrow> Some p | None \<Rightarrow> cls_pack base)
      in
      case annotations a of
        None \<Rightarrow>
          (h, struct_new h base (a_fields a) byteorder pack)
      | Some anns \<Rightarrow>
          let fields_base =
                (case a_fields a of
                   Some l \<Rightarrow> []
                 | None \<Rightarrow> (case fields_ref base of Some l \<Rightarrow> h ! l | None \<Rightarrow> []));
              swap = (byteorder \<noteq> None \<and> Some host \<noteq> byteorder);
              h1 = (case a_fields a of Some l \<Rightarrow> h | None \<Rightarrow> h @ [fields_base]);
              l = (case a_fields a of Some l \<Rightarrow> l | None \<Rightarrow> length h)
          in
          (case new_fields swap anns of
             Inl e \<Rightarrow> (h1, Inl e)
           | Inr fs \<Rightarrow>
               let h2 = h1[l := h1 ! l @ fs]
               in (h2, struct_new h2 base (Some l) byteorder pack)))"

text \<open>
  The classes the module itself creates. \<^verbatim>\<open>TCStruct\<close> derives from
  \<^verbatim>\<open>ctypes.Structure\<close>, which has no \<^verbatim>\<open>_fields_\<close>; its body annotates only
  \<^verbatim>\<open>__bytes__\<close>, so its own list (at address 0) stays empty.
\<close>

definition Structure :: tcclass where
  "Structure = \<lparr>fields_ref = None, cls_byteorder = None, cls_pack = None,
                 descriptors = [], cls_size = 0, cls_align = 1\<rparr>"

definition TCStruct :: tcclass where
  "TCStruct = \<lparr>fields_ref = Some 0, cls_byteorder = None, cls_pack = None,
                descriptors = [], cls_size = 0, cls_align = 1\<rparr>"

definition LittleEndianStruct :: tcclass where
  "LittleEndianStruct = TCStruct\<lparr>cls_byteorder := Some Little\<rparr>"

definition BigEndianStruct :: tcclass where
  "BigEndianStruct = TCStruct\<lparr>cls_byteorder := Some Big\<rparr>"

definition Struct :: "byteorder \<Rightarrow> tcclass" where
  "Struct host = (if host = Little then LittleEndianStruct else BigEndianStruct)"

definition module_heap :: heap where
  "module_heap = [[]]"

section \<open>Field storage: the setters and getters of \<^verbatim>\<open>ctypes\<close>\<close>

datatype pyval = PInt int | PFloat "64 word" | PTuple "pyval list" | PNone

type_synonym byte = "8 word"

text \<open>The low \<open>n\<close> bytes of an integer, least significant first (two's complement).\<close>

fun le_bytes :: "nat \<Rightarrow> int \<Rightarrow> byte list" where
  "le_bytes 0 i = []"
| "le_bytes (Suc n) i = word_of_int i # le_bytes n (i div 256)"

fun le_int :: "byte list \<Rightarrow> int" where
  "le_int [] = 0"
| "le_int (b # bs) = uint b + 256 * le_int bs"

text \<open>
  The byte order a type stores in: the host's for a native type, the opposite one for
  its other-endian variant.
\<close>

definition stores_little :: "byteorder \<Rightarrow> bool \<Rightarrow> bool" where
  "stores_little host sw = ((host = Little) = (\<not> sw))"

definition int_bytes :: "byteorder \<Rightarrow> bool \<Rightarrow> nat \<Rightarrow> int \<Rightarrow> byte list" where
  "int_bytes host sw n i = (if stores_little host sw then le_bytes n i else rev (le_bytes n i))"

definition bytes_int :: "byteorder \<Rightarrow> bool \<Rightarrow> byte list \<Rightarrow> int" where
  "bytes_int host sw bs = (if stores_little host sw then le_int bs else le_int (rev bs))"

text \<open>
  The setter of a simple type. Integer types accept Python ints only and mask them to
  their width without any range check; float types accept floats and ints.
\<close>

definition scalar_bytes :: "byteorder \<Rightarrow> kind \<Rightarrow> bool \<Rightarrow> pyval \<Rightarrow> error + byte list" where
  "scalar_bytes host k sw v =
     (if is_float k then
        (case (case v of
                 PFloat d \<Rightarrow> Inr d
               | PInt i \<Rightarrow> (case int_to_double i of None \<Rightarrow> Inl COverflowError | Some d \<Rightarrow> Inr d)
               | _ \<Rightarrow> Inl CTypeError) of
           Inl e \<Rightarrow> Inl e
         | Inr d \<Rightarrow>
             Inr (int_bytes host sw (bytewidth k)
                    (if k = F32 then uint (double_to_float d) else uint d)))
      else
        (case v of
           PInt i \<Rightarrow> Inr (int_bytes host sw (bytewidth k) i)
         | _ \<Rightarrow> Inl CTypeError))"

text \<open>The getter of a simple type.\<close>

definition scalar_value :: "byteorder \<Rightarrow> kind \<Rightarrow> bool \<Rightarrow> byte list \<Rightarrow> pyval" where
  "scalar_value host k sw bs =
     (let u = bytes_int host sw bs in
      if is_float k then
        (if k = F32 then PFloat (float_to_double (word_of_int u)) else PFloat (word_of_int u))
      else if is_signed k \<and> 2 ^ (bitwidth k - 1) \<le> u then PInt (u - 2 ^ bitwidth k)
      else PInt u)"

text \<open>
  An array field is set from a tuple: a fresh zeroed array is filled item by item and
  copied over the field. Any failure on the way surfaces as \<^verbatim>\<open>RuntimeError\<close>.
\<close>

fun items_bytes :: "byteorder \<Rightarrow> kind \<Rightarrow> bool \<Rightarrow> pyval list \<Rightarrow> error + byte list" where
  "items_bytes host k sw [] = Inr []"
| "items_bytes host k sw (v # vs) =
     (case scalar_bytes host k sw v of
        Inl e \<Rightarrow> Inl CRuntimeError
      | Inr b \<Rightarrow>
          (case items_bytes host k sw vs of
             Inl e \<Rightarrow> Inl e
           | Inr bs \<Rightarrow> Inr (b @ bs)))"

fun field_bytes :: "byteorder \<Rightarrow> ctype \<Rightarrow> pyval \<Rightarrow> error + byte list" where
  "field_bytes host (CSimple k sw) v = scalar_bytes host k sw v"
| "field_bytes host (CArray k sw n) (PTuple vs) =
     (if n < length vs then Inl CRuntimeError
      else
        (case items_bytes host k sw vs of
           Inl e \<Rightarrow> Inl e
         | Inr bs \<Rightarrow> Inr (bs @ replicate ((n - length vs) * bytewidth k) 0)))"
| "field_bytes host (CArray k sw n) v = Inl CTypeError"
| "field_bytes host NotCType v = Inl CTypeError"

fun chunks :: "nat \<Rightarrow> nat \<Rightarrow> 'a list \<Rightarrow> 'a list list" where
  "chunks w 0 bs = []"
| "chunks w (Suc n) bs = take w bs # chunks w n (drop w bs)"

fun field_value :: "byteorder \<Rightarrow> ctype \<Rightarrow> byte list \<Rightarrow> pyval" where
  "field_value host (CSimple k sw) bs = scalar_value host k sw bs"
| "field_value host (CArray k sw n) bs = PTuple (map (scalar_value host k sw) (chunks (bytewidth k) n bs))"
| "field_value host NotCType bs = PNone"

section \<open>Records: \<^verbatim>\<open>TCStruct.__init__\<close>, \<^verbatim>\<open>from_bytes\<close>, \<^verbatim>\<open>to_bytes\<close>\<close>

text \<open>An instance: its class, its buffer, and the attributes that are no fields.\<close>

record tcinstance =
  inst_cls :: tcclass
  buffer :: "byte list"
  inst_dict :: "(string \<times> pyval) list"

definition read_bytes :: "byte list \<Rightarrow> nat \<Rightarrow> nat \<Rightarrow> byte list" where
  "read_bytes buf off n = take n (drop off buf)"

definition write_bytes :: "byte list \<Rightarrow> nat \<Rightarrow> byte list \<Rightarrow> byte list" where
  "write_bytes buf off bs = take off buf @ bs @ drop (off + length bs) buf"

text \<open>
  Attribute lookup finds the descriptor created last under a name: descriptors of the
  class come after those of its bases, and a later \<^verbatim>\<open>_fields_\<close> entry replaces an
  earlier one of the same name.
\<close>

fun find_field :: "descriptor list \<Rightarrow> string \<Rightarrow> (nat \<times> ctype) option" where
  "find_field [] n = None"
| "find_field ((m, off, t) # ds) n =
     (case find_field ds n of
        Some d \<Rightarrow> Some d
      | None \<Rightarrow> if m = n then Some (off, t) else None)"

text \<open>A Python dictionary keeps insertion order; assigning to a present key keeps its place.\<close>

fun dict_set :: "('k \<times> 'v) list \<Rightarrow> 'k \<Rightarrow> 'v \<Rightarrow> ('k \<times> 'v) list" where
  "dict_set [] k v = [(k, v)]"
| "dict_set ((k', v') # d) k v = (if k' = k then (k, v) # d else (k', v') # dict_set d k v)"

definition dict_update :: "('k \<times> 'v) list \<Rightarrow> ('k \<times> 'v) list \<Rightarrow> ('k \<times> 'v) list" where
  "dict_update d kvs = foldl (\<lambda>d kv. dict_set d (fst kv) (snd kv)) d kvs"

definition tc_setattr :: "byteorder \<Rightarrow> tcinstance \<Rightarrow> string \<Rightarrow> pyval \<Rightarrow> error + tcinstance" where
  "tc_setattr host r n v =
     (case find_field (descriptors (inst_cls r)) n of
        Some (off, t) \<Rightarrow>
          (case field_bytes host t v of
             Inl e \<Rightarrow> Inl e
           | Inr bs \<Rightarrow> Inr (r\<lparr>buffer := write_bytes (buffer r) off bs\<rparr>))
      | None \<Rightarrow> Inr (r\<lparr>inst_dict := dict_set (inst_dict r) n v\<rparr>))"

definition tc_getattr :: "byteorder \<Rightarrow> tcinstance \<Rightarrow> string \<Rightarrow> pyval option" where
  "tc_getattr host r n =
     (case find_field (descriptors (inst_cls r)) n of
        Some (off, t) \<Rightarrow> Some (field_value host t (read_bytes (buffer r) off (sizeof t)))
      | None \<Rightarrow> map_of (inst_dict r) n)"

text \<open>\<^verbatim>\<open>Structure.__init__(**kwargs)\<close>: one \<^verbatim>\<open>setattr\<close> per item, in dictionary order.\<close>

fun set_all :: "byteorder \<Rightarrow> tcinstance \<Rightarrow> (string \<times> pyval) list \<Rightarrow> error + tcinstance" where
  "set_all host r [] = Inr r"
| "set_all host r ((n, v) # kvs) =
     (case tc_setattr host r n v of
        Inl e \<Rightarrow> Inl e
      | Inr r' \<Rightarrow> set_all host r' kvs)"

text \<open>
  \<^verbatim>\<open>TCStruct.__init__\<close> on the zeroed instance that \<^verbatim>\<open>__new__\<close> allocated. The field
  names are read from the list that \<^verbatim>\<open>self._fields_\<close> resolves to at the time of the
  call.
\<close>

definition tc_init ::
  "byteorder \<Rightarrow> heap \<Rightarrow> tcclass \<Rightarrow> pyval list \<Rightarrow> (string \<times> pyval) list \<Rightarrow> error + tcinstance"
where
  "tc_init host h cls args kwargs =
     (case fields_ref cls of
        None \<Rightarrow> Inl CAttributeError
      | Some l \<Rightarrow>
          let kwargs_new = dict_update [] (zip (map fst (h ! l)) args) in
          if \<exists>k \<in> set (map fst kwargs). k \<in> set (map fst kwargs_new) then Inl DuplicateArgument
          else
            set_all host \<lparr>inst_cls = cls, buffer = replicate (cls_size cls) 0, inst_dict = []\<rparr>
              (dict_update kwargs_new kwargs))"

text \<open>\<^verbatim>\<open>from_bytes\<close> is \<^verbatim>\<open>from_buffer_copy\<close>; its \<^verbatim>\<open>byteorder\<close> argument is not used.\<close>

definition from_bytes :: "tcclass \<Rightarrow> byte list \<Rightarrow> error + tcinstance" where
  "from_bytes cls data =
     (if length data < cls_size cls then Inl BufferTooShort
      else Inr \<lparr>inst_cls = cls, buffer = take (cls_size cls) data, inst_dict = []\<rparr>)"

text \<open>\<^verbatim>\<open>to_bytes\<close> is \<^verbatim>\<open>bytes(self)\<close>: a copy of the buffer.\<close>

definition to_bytes :: "tcinstance \<Rightarrow> byte list" where
  "to_bytes r = buffer r"

section \<open>Layout invariant and the structures of the test suite\<close>

text \<open>
  The invariant of every layout that \<^verbatim>\<open>ctypes\<close> computes: read in the order of their
  creation, the descriptors occupy byte ranges that follow one another without overlap
  between \<open>lo\<close> and \<open>hi\<close>. A class is well formed when its descriptors lie so between 0
  and its size. The classes of the module are well formed and the metaclass creates
  well-formed classes from well-formed bases (\<open>new_class_wf\<close> below).
\<close>

fun laid_out :: "nat \<Rightarrow> descriptor list \<Rightarrow> nat \<Rightarrow> bool" where
  "laid_out lo [] hi = (lo \<le> hi)"
| "laid_out lo ((n, off, t) # ds) hi = (lo \<le> off \<and> laid_out (off + sizeof t) ds hi)"

definition wf_class :: "tcclass \<Rightarrow> bool" where
  "wf_class c = laid_out 0 (descriptors c) (cls_size c)"

text \<open>An instance is well formed when its buffer has the size of its well-formed class.\<close>

definition wf_inst :: "tcinstance \<Rightarrow> bool" where
  "wf_inst r = (wf_class (inst_cls r) \<and> length (buffer r) = cls_size (inst_cls r))"

text \<open>
  \<^verbatim>\<open>MyStruct\<close> of \<^verbatim>\<open>test_littleendianstruct\<close>: its class body, the arguments of the
  test (1.0 and 2.0 as binary64 bit patterns), and the heap, the class and the record
  that the model computes for them on a little-endian host. The buffer is the byte
  string the test expects.
\<close>

definition MyStruct_attrs :: attrs where
  "MyStruct_attrs = \<lparr>annotations = Some [(''magicnumber'', TC U32 None),
      (''version'', ArrayOf (TC U8 (Some 4))), (''value'', TC U16 None),
      (''fvalue'', TC F32 None), (''dvalue'', TC F64 None)],
      a_fields = None, a_byteorder = None, a_pack = None\<rparr>"

definition MyStruct_args :: "pyval list" where
  "MyStruct_args = [PInt 0xDEADBEEF, PTuple [PInt 1, PInt 2, PInt 3, PInt 4000], PInt (- 2),
     PFloat 0x3FF0000000000000, PFloat 0x4000000000000000]"

definition MyStruct_heap :: heap where
  "MyStruct_heap = [[], [(''magicnumber'', CSimple U32 False), (''version'', CArray U8 False 4),
    (''value'', CSimple U16 False), (''fvalue'', CSimple F32 False), (''dvalue'', CSimple F64 False)]]"

definition MyStruct :: tcclass where
  "MyStruct = \<lparr>fields_ref = Some 1, cls_byteorder = Some Little, cls_pack = None,
     descriptors = [(''magicnumber'', 0, CSimple U32 False), (''version'', 4, CArray U8 False 4),
       (''value'', 8, CSimple U16 False), (''fvalue'', 12, CSimple F32 False),
       (''dvalue'', 16, CSimple F64 False)],
     cls_size = 24, cls_align = 8\<rparr>"

definition MyStruct_record :: tcinstance where
  "MyStruct_record = \<lparr>inst_cls = MyStruct,
     buffer = [239, 190, 173, 222, 1, 2, 3, 160, 254, 255, 0, 0, 0, 0, 128, 63,
               0, 0, 0, 0, 0, 0, 0, 64],
     inst_dict = []\<rparr>"

text \<open>Reduction of an integer to the width of a kind, in two's complement.\<close>

definition wraparound :: "kind \<Rightarrow> int \<Rightarrow> int" where
  "wraparound k i =
     (if is_signed k then signed_take_bit (bitwidth k - 1) i else take_bit (bitwidth k) i)"

text \<open>
  \<^verbatim>\<open>MyStruct\<close> of \<^verbatim>\<open>test_bytes\<close>, the same class body under \<^verbatim>\<open>BigEndianStruct\<close> on a
  little-endian host: every field wider than a byte has the other-endian type.
\<close>

definition MyBigStruct_heap :: heap where
  "MyBigStruct_heap = [[], [(''magicnumber'', CSimple U32 True), (''version'', CArray U8 False 4),
    (''value'', CSimple U16 True), (''fvalue'', CSimple F32 True), (''dvalue'', CSimple F64 True)]]"

definition MyBigStruct :: tcclass where
  "MyBigStruct = \<lparr>fields_ref = Some 1, cls_byteorder = Some Big, cls_pack = None,
     descriptors = [(''magicnumber'', 0, CSimple U32 True), (''version'', 4, CArray U8 False 4),
       (''value'', 8, CSimple U16 True), (''fvalue'', 12, CSimple F32 True),
       (''dvalue'', 16, CSimple F64 True)],
     cls_size = 24, cls_align = 8\<rparr>"

definition MyBigStruct_record :: tcinstance where
  "MyBigStruct_record = \<lparr>inst_cls = MyBigStruct,
     buffer = [222, 173, 190, 239, 1, 2, 3, 160, 255, 254, 0, 0, 63, 128, 0, 0,
               64, 0, 0, 0, 0, 0, 0, 0],
     inst_dict = []\<rparr>"

text \<open>A byte of a record that belongs to no field.\<close>

definition is_padding :: "tcclass \<Rightarrow> nat \<Rightarrow> bool" where
  "is_padding cls i =
     (i < cls_size cls \<and>
      (\<forall>d \<in> set (descriptors cls). \<not> (fst (snd d) \<le> i \<and> i < fst (snd d) + sizeof (snd (snd d)))))"

text \<open>The class a definition returns, and the name, offset and size of each field with the total size.\<close>

definition defined_class :: "heap \<times> (error + tcclass) \<Rightarrow> tcclass option" where
  "defined_class x = (case snd x of Inl e \<Rightarrow> None | Inr c \<Rightarrow> Some c)"

definition layout_of :: "tcclass \<Rightarrow> (string \<times> nat \<times> nat) list \<times> nat" where
  "layout_of c = (map (\<lambda>d. (fst d, fst (snd d), sizeof (snd (snd d)))) (descriptors c), cls_size c)"



text \<open>
  \<^verbatim>\<open>MyBaseStruct\<close> and the derived \<^verbatim>\<open>MyStruct\<close> of \<^verbatim>\<open>test_derivation\<close> on a
  little-endian host, with the record \<^verbatim>\<open>MyStruct(1, 2, 3)\<close>; a derived class that
  declares \<^verbatim>\<open>common1\<close> again; and a class body that binds \<^verbatim>\<open>_fields_\<close> to the list of
  \<^verbatim>\<open>MyBaseStruct\<close> (address 1) before it annotates \<^verbatim>\<open>special1\<close>.
\<close>

definition MyBase_attrs :: attrs where
  "MyBase_attrs = \<lparr>annotations = Some [(''common1'', TC U32 None), (''common2'', TC U32 None)],
      a_fields = None, a_byteorder = None, a_pack = None\<rparr>"

definition MyBase_heap :: heap where
  "MyBase_heap = [[], [(''common1'', CSimple U32 False), (''common2'', CSimple U32 False)]]"

definition MyBaseStruct :: tcclass where
  "MyBaseStruct = \<lparr>fields_ref = Some 1, cls_byteorder = Some Little, cls_pack = None,
     descriptors = [(''common1'', 0, CSimple U32 False), (''common2'', 4, CSimple U32 False)],
     cls_size = 8, cls_align = 4\<rparr>"

definition MyDerived_attrs :: attrs where
  "MyDerived_attrs = \<lparr>annotations = Some [(''special1'', TC U32 None)],
      a_fields = None, a_byteorder = None, a_pack = None\<rparr>"

definition MyDerived_heap :: heap where
  "MyDerived_heap = [[], [(''common1'', CSimple U32 False), (''common2'', CSimple U32 False)],
     [(''common1'', CSimple U32 False), (''common2'', CSimple U32 False),
      (''special1'', CSimple U32 False)]]"

definition MyDerivedStruct :: tcclass where
  "MyDerivedStruct = \<lparr>fields_ref = Some 2, cls_byteorder = Some Little, cls_pack = None,
     descriptors = [(''common1'', 0, CSimple U32 False), (''common2'', 4, CSimple U32 False),
       (''common1'', 8, CSimple U32 False), (''common2'', 12, CSimple U32 False),
       (''special1'', 16, CSimple U32 False)],
     cls_size = 20, cls_align = 4\<rparr>"

definition MyDerived_record :: tcinstance where
  "MyDerived_record = \<lparr>inst_cls = MyDerivedStruct,
     buffer = [0, 0, 0, 0, 0, 0, 0, 0, 1, 0, 0, 0, 2, 0, 0, 0, 3, 0, 0, 0],
     inst_dict = []\<rparr>"

definition Redeclared_attrs :: attrs where
  "Redeclared_attrs = \<lparr>annotations = Some [(''common1'', TC U8 None)],
      a_fields = None, a_byteorder = None, a_pack = None\<rparr>"

definition Redeclared_heap :: heap where
  "Redeclared_heap = [[], [(''common1'', CSimple U32 False), (''common2'', CSimple U32 False)],
     [(''common1'', CSimple U32 False), (''common2'', CSimple U32 False),
      (''common1'', CSimple U8 False)]]"

definition RedeclaredStruct :: tcclass where
  "RedeclaredStruct = \<lparr>fields_ref = Some 2, cls_byteorder = Some Little, cls_pack = None,
     descriptors = [(''common1'', 0, CSimple U32 False), (''common2'', 4, CSimple U32 False),
       (''common1'', 8, CSimple U32 False), (''common2'', 12, CSimple U32 False),
       (''common1'', 16, CSimple U8 False)],
     cls_size = 20, cls_align = 4\<rparr>"

definition Aliasing_attrs :: attrs where
  "Aliasing_attrs = \<lparr>annotations = Some [(''special1'', TC U32 None)],
      a_fields = Some 1, a_byteorder = None, a_pack = None\<rparr>"

text \<open>A descriptor without its offset: an entry of \<^verbatim>\<open>_fields_\<close>.\<close>

definition strip_offset :: "descriptor \<Rightarrow> string \<times> ctype" where
  "strip_offset d = (fst d, snd (snd d))"

section \<open>Properties of the layout and of field storage\<close>

lemma module_TCStruct:
  "new_class host [] Structure
     \<lparr>annotations = Some [(''__bytes__'', Foreign)], a_fields = None,
      a_byteorder = Some None, a_pack = None\<rparr> = (module_heap, Inr TCStruct)"
  by (simp add: new_class_def struct_new_def Structure_def TCStruct_def module_heap_def
      startswith_underscore_def align_up_def)

lemma module_LittleEndianStruct:
  "new_class host module_heap TCStruct
     \<lparr>annotations = None, a_fields = None, a_byteorder = Some (Some Little), a_pack = None\<rparr>
   = (module_heap, Inr LittleEndianStruct)"
  by (simp add: new_class_def struct_new_def TCStruct_def LittleEndianStruct_def)

lemma module_BigEndianStruct:
  "new_class host module_heap TCStruct
     \<lparr>annotations = None, a_fields = None, a_byteorder = Some (Some Big), a_pack = None\<rparr>
   = (module_heap, Inr BigEndianStruct)"
  by (simp add: new_class_def struct_new_def TCStruct_def BigEndianStruct_def)

lemma align_up_ge: "off \<le> align_up off a"
proof (cases "a \<noteq> 0 \<and> off mod a \<noteq> 0")
  case True
  then have "off mod a < a" by simp
  with True show ?thesis by (simp add: align_up_def)
next
  case False
  then show ?thesis by (auto simp: align_up_def)
qed

lemma laid_out_le: "laid_out lo ds hi \<Longrightarrow> lo \<le> hi"
proof (induction ds arbitrary: lo)
  case Nil
  then show ?case by simp
next
  case (Cons d ds)
  obtain m p u where d: "d = (m, p, u)" by (cases d) auto
  with Cons.prems have "lo \<le> p" "laid_out (p + sizeof u) ds hi" by auto
  with Cons.IH [of "p + sizeof u"] show ?case by simp
qed

lemma laid_out_mono: "laid_out lo ds hi \<Longrightarrow> hi \<le> hi' \<Longrightarrow> laid_out lo ds hi'"
  by (induction ds arbitrary: lo) auto

lemma laid_out_snoc:
  "laid_out lo ds hi \<Longrightarrow> hi \<le> p \<Longrightarrow> laid_out lo (ds @ [(n, p, t)]) (p + sizeof t)"
  by (induction ds arbitrary: lo) auto

lemma add_field_laid_out:
  "laid_out 0 ds off \<Longrightarrow> add_field pack (ds, off, al) f = (ds', off', al') \<Longrightarrow> laid_out 0 ds' off'"
  by (cases f) (auto simp: add_field_def Let_def intro: laid_out_snoc align_up_ge)

lemma foldl_add_field_laid_out:
  "laid_out 0 ds off \<Longrightarrow> foldl (add_field pack) (ds, off, al) fs = (ds', off', al')
   \<Longrightarrow> laid_out 0 ds' off'"
proof (induction fs arbitrary: ds off al)
  case Nil
  then show ?case by simp
next
  case (Cons f fs)
  obtain ds1 off1 al1 where st: "add_field pack (ds, off, al) f = (ds1, off1, al1)"
    by (cases "add_field pack (ds, off, al) f") auto
  from Cons.prems(1) st have "laid_out 0 ds1 off1" by (rule add_field_laid_out)
  moreover from Cons.prems(2) st have "foldl (add_field pack) (ds1, off1, al1) fs = (ds', off', al')"
    by simp
  ultimately show ?case by (rule Cons.IH)
qed

lemma struct_new_wf:
  assumes "wf_class base" and "struct_new h base fref bo pack = Inr c"
  shows "wf_class c"
proof (cases fref)
  case None
  with assms show ?thesis by (auto simp: struct_new_def wf_class_def)
next
  case (Some l)
  obtain ds off al where f: "foldl (add_field pack) (descriptors base, cls_size base, cls_align base) (h ! l) = (ds, off, al)"
    by (cases "foldl (add_field pack) (descriptors base, cls_size base, cls_align base) (h ! l)") auto
  from assms(1) f have "laid_out 0 ds off"
    unfolding wf_class_def by (rule foldl_add_field_laid_out)
  then have "laid_out 0 ds (align_up off al)"
    by (rule laid_out_mono) (rule align_up_ge)
  with assms(2) Some f show ?thesis
    by (auto simp: struct_new_def wf_class_def split: if_splits)
qed

lemma new_class_wf:
  assumes "wf_class base" and "new_class host h base a = (h', Inr c)"
  shows "wf_class c"
  using assms
  by (auto simp: new_class_def Let_def split: option.splits sum.splits dest: struct_new_wf)

lemma wf_TCStruct: "wf_class TCStruct" "wf_class LittleEndianStruct" "wf_class BigEndianStruct" "wf_class (Struct host)"
  by (simp_all add: wf_class_def TCStruct_def LittleEndianStruct_def BigEndianStruct_def Struct_def)

lemma laid_out_bounds:
  "laid_out lo ds hi \<Longrightarrow> (n, off, t) \<in> set ds \<Longrightarrow> lo \<le> off \<and> off + sizeof t \<le> hi"
proof (induction ds arbitrary: lo)
  case Nil
  then show ?case by simp
next
  case (Cons d ds)
  obtain m p u where d: "d = (m, p, u)" by (cases d) auto
  show ?case
  proof (cases "(n, off, t) = d")
    case True
    with Cons.prems d show ?thesis using laid_out_le [of "p + sizeof u" ds hi] by auto
  next
    case False
    with Cons.prems d have "laid_out (p + sizeof u) ds hi" "(n, off, t) \<in> set ds" by auto
    from Cons.IH [OF this] Cons.prems d show ?thesis by auto
  qed
qed

lemma find_field_mem: "find_field ds n = Some (off, t) \<Longrightarrow> (n, off, t) \<in> set ds"
  by (induction ds) (auto split: option.splits if_splits)

lemma laid_out_disjoint:
  "laid_out lo ds hi \<Longrightarrow> find_field ds n = Some (o1, t1) \<Longrightarrow> find_field ds m = Some (o2, t2)
   \<Longrightarrow> n \<noteq> m \<Longrightarrow> o1 + sizeof t1 \<le> o2 \<or> o2 + sizeof t2 \<le> o1"
proof (induction ds arbitrary: lo)
  case Nil
  then show ?case by simp
next
  case (Cons d ds)
  obtain k p u where d: "d = (k, p, u)" by (cases d) auto
  from Cons.prems(1) d have tl: "laid_out (p + sizeof u) ds hi" and "lo \<le> p" by auto
  show ?case
  proof (cases "find_field ds n")
    case None
    with Cons.prems(2) d have n: "k = n" "o1 = p" "t1 = u" by (auto split: if_splits)
    with Cons.prems(3,4) d have "find_field ds m = Some (o2, t2)" by (auto split: option.splits)
    then have "(m, o2, t2) \<in> set ds" by (rule find_field_mem)
    with tl have "p + sizeof u \<le> o2" using laid_out_bounds by blast
    with n show ?thesis by simp
  next
    case (Some a)
    with Cons.prems(2) d have fn: "find_field ds n = Some (o1, t1)" by simp
    show ?thesis
    proof (cases "find_field ds m")
      case None
      with Cons.prems(3) d have m: "k = m" "o2 = p" "t2 = u" by (auto split: if_splits)
      from fn have "(n, o1, t1) \<in> set ds" by (rule find_field_mem)
      with tl have "p + sizeof u \<le> o1" using laid_out_bounds by blast
      with m show ?thesis by simp
    next
      case (Some b)
      with Cons.prems(3) d have "find_field ds m = Some (o2, t2)" by simp
      from Cons.IH [OF tl fn this Cons.prems(4)] show ?thesis .
    qed
  qed
qed

lemma length_le_bytes: "length (le_bytes n i) = n"
  by (induction n arbitrary: i) auto

lemma length_int_bytes: "length (int_bytes host sw n i) = n"
  by (simp add: int_bytes_def length_le_bytes)

lemma length_scalar_bytes: "scalar_bytes host k sw v = Inr bs \<Longrightarrow> length bs = bytewidth k"
  by (auto simp: scalar_bytes_def length_int_bytes split: if_splits sum.splits pyval.splits option.splits)

lemma length_items_bytes:
  "items_bytes host k sw vs = Inr bs \<Longrightarrow> length bs = length vs * bytewidth k"
proof (induction vs arbitrary: bs)
  case Nil
  then show ?case by simp
next
  case (Cons v vs)
  from Cons.prems obtain b bs' where b: "scalar_bytes host k sw v = Inr b"
    and bs': "items_bytes host k sw vs = Inr bs'" and eq: "bs = b @ bs'"
    by (auto split: sum.splits)
  from length_scalar_bytes [OF b] Cons.IH [OF bs'] eq show ?case by simp
qed

lemma length_field_bytes: "field_bytes host t v = Inr bs \<Longrightarrow> length bs = sizeof t"
proof (induction host t v rule: field_bytes.induct)
  case (1 host k sw v)
  then show ?case by (simp add: length_scalar_bytes)
next
  case (2 host k sw n vs)
  then obtain bs' where bs': "items_bytes host k sw vs = Inr bs'" and le: "length vs \<le> n"
    and eq: "bs = bs' @ replicate ((n - length vs) * bytewidth k) 0"
    by (auto split: if_splits sum.splits)
  from length_items_bytes [OF bs'] le eq show ?case
    by (simp add: add_mult_distrib [symmetric])
qed simp_all

lemma length_write_bytes:
  "off + length bs \<le> length buf \<Longrightarrow> length (write_bytes buf off bs) = length buf"
  by (simp add: write_bytes_def)

lemma nth_write_bytes:
  assumes "off + length bs \<le> length buf" and "i < length buf"
  shows "write_bytes buf off bs ! i =
         (if off \<le> i \<and> i < off + length bs then bs ! (i - off) else buf ! i)"
proof -
  have l: "length (take off buf) = off" using assms by simp
  show ?thesis
  proof (cases "i < off")
    case True
    with l show ?thesis by (simp add: write_bytes_def nth_append)
  next
    case False
    show ?thesis
    proof (cases "i < off + length bs")
      case True
      with False have "i - off < length bs" by arith
      with True False l show ?thesis by (simp add: write_bytes_def nth_append)
    next
      case False
      with \<open>\<not> i < off\<close> have a: "\<not> i - off < length bs"
        and b: "off + length bs + (i - off - length bs) = i" by arith+
      from False \<open>\<not> i < off\<close> l a b assms show ?thesis
        by (simp add: write_bytes_def nth_append)
    qed
  qed
qed

lemma read_write_same:
  assumes "off + length bs \<le> length buf"
  shows "read_bytes (write_bytes buf off bs) off (length bs) = bs"
  using assms by (simp add: read_bytes_def write_bytes_def)

lemma read_write_other:
  assumes "o1 + length bs \<le> length buf" and "o2 + n \<le> o1 \<or> o1 + length bs \<le> o2"
  shows "read_bytes (write_bytes buf o1 bs) o2 n = read_bytes buf o2 n"
proof (rule nth_equalityI)
  show "length (read_bytes (write_bytes buf o1 bs) o2 n) = length (read_bytes buf o2 n)"
    using assms(1) by (simp add: read_bytes_def length_write_bytes)
next
  fix i assume "i < length (read_bytes (write_bytes buf o1 bs) o2 n)"
  then have i: "i < n" "o2 + i < length buf"
    using assms(1) by (auto simp: read_bytes_def length_write_bytes)
  with assms(2) have "\<not> (o1 \<le> o2 + i \<and> o2 + i < o1 + length bs)" by auto
  with i assms(1) show "read_bytes (write_bytes buf o1 bs) o2 n ! i = read_bytes buf o2 n ! i"
    by (auto simp: read_bytes_def length_write_bytes nth_write_bytes)
qed

lemma find_field_in_buffer:
  assumes "wf_inst r" and "find_field (descriptors (inst_cls r)) n = Some (off, t)"
  shows "off + sizeof t \<le> length (buffer r)"
proof -
  from assms(2) have "(n, off, t) \<in> set (descriptors (inst_cls r))" by (rule find_field_mem)
  with assms(1) show ?thesis
    using laid_out_bounds [of 0 "descriptors (inst_cls r)" "cls_size (inst_cls r)" n off t]
    by (simp add: wf_inst_def wf_class_def)
qed

lemma tc_setattr_cls: "tc_setattr host r n v = Inr r' \<Longrightarrow> inst_cls r' = inst_cls r"
  by (auto simp: tc_setattr_def split: option.splits sum.splits)

lemma tc_setattr_wf:
  assumes "wf_inst r" and "tc_setattr host r n v = Inr r'"
  shows "wf_inst r'"
proof (cases "find_field (descriptors (inst_cls r)) n")
  case None
  with assms show ?thesis by (auto simp: tc_setattr_def wf_inst_def)
next
  case (Some d)
  obtain off t where d: "d = (off, t)" by (cases d) auto
  with Some assms(2) obtain bs where bs: "field_bytes host t v = Inr bs"
    and r': "r' = r\<lparr>buffer := write_bytes (buffer r) off bs\<rparr>"
    by (auto simp: tc_setattr_def split: sum.splits)
  from find_field_in_buffer [OF assms(1)] Some d length_field_bytes [OF bs]
  have "off + length bs \<le> length (buffer r)" by simp
  with assms(1) r' show ?thesis by (simp add: wf_inst_def length_write_bytes)
qed

lemma tc_setattr_stores:
  assumes "wf_inst r" and "tc_setattr host r n v = Inr r'"
    and "find_field (descriptors (inst_cls r)) n = Some (off, t)"
  shows "field_bytes host t v = Inr (read_bytes (buffer r') off (sizeof t))"
proof -
  from assms(2,3) obtain bs where bs: "field_bytes host t v = Inr bs"
    and r': "r' = r\<lparr>buffer := write_bytes (buffer r) off bs\<rparr>"
    by (auto simp: tc_setattr_def split: sum.splits)
  from find_field_in_buffer [OF assms(1,3)] length_field_bytes [OF bs]
  have "off + length bs \<le> length (buffer r)" by simp
  then have "read_bytes (write_bytes (buffer r) off bs) off (length bs) = bs"
    by (rule read_write_same)
  with bs r' length_field_bytes [OF bs] show ?thesis by simp
qed

lemma tc_setattr_other:
  assumes "wf_inst r" and "tc_setattr host r n v = Inr r'" and "m \<noteq> n"
    and "find_field (descriptors (inst_cls r)) m = Some (o2, t2)"
  shows "read_bytes (buffer r') o2 (sizeof t2) = read_bytes (buffer r) o2 (sizeof t2)"
proof (cases "find_field (descriptors (inst_cls r)) n")
  case None
  with assms(2) show ?thesis by (auto simp: tc_setattr_def)
next
  case (Some d)
  obtain off t where d: "d = (off, t)" by (cases d) auto
  with Some assms(2) obtain bs where bs: "field_bytes host t v = Inr bs"
    and r': "r' = r\<lparr>buffer := write_bytes (buffer r) off bs\<rparr>"
    by (auto simp: tc_setattr_def split: sum.splits)
  from find_field_in_buffer [OF assms(1)] Some d length_field_bytes [OF bs]
  have inb: "off + length bs \<le> length (buffer r)" by simp
  from assms(1) have "laid_out 0 (descriptors (inst_cls r)) (cls_size (inst_cls r))"
    by (simp add: wf_inst_def wf_class_def)
  from laid_out_disjoint [OF this assms(4) _ assms(3)] Some d
  have "o2 + sizeof t2 \<le> off \<or> off + sizeof t \<le> o2" by simp
  with length_field_bytes [OF bs] have "o2 + sizeof t2 \<le> off \<or> off + length bs \<le> o2" by simp
  from read_write_other [OF inb this] r' show ?thesis by simp
qed

lemma set_all_cls: "set_all host r kvs = Inr r' \<Longrightarrow> inst_cls r' = inst_cls r"
proof (induction kvs arbitrary: r)
  case Nil
  then show ?case by simp
next
  case (Cons kv kvs)
  obtain n v where kv: "kv = (n, v)" by (cases kv) auto
  with Cons.prems obtain r1 where r1: "tc_setattr host r n v = Inr r1" and rest: "set_all host r1 kvs = Inr r'"
    by (auto split: sum.splits)
  from Cons.IH [OF rest] tc_setattr_cls [OF r1] show ?case by simp
qed

lemma set_all_wf: "wf_inst r \<Longrightarrow> set_all host r kvs = Inr r' \<Longrightarrow> wf_inst r'"
proof (induction kvs arbitrary: r)
  case Nil
  then show ?case by simp
next
  case (Cons kv kvs)
  obtain n v where kv: "kv = (n, v)" by (cases kv) auto
  with Cons.prems obtain r1 where r1: "tc_setattr host r n v = Inr r1" and rest: "set_all host r1 kvs = Inr r'"
    by (auto split: sum.splits)
  from tc_setattr_wf [OF Cons.prems(1) r1] rest show ?case by (rule Cons.IH)
qed

lemma set_all_other:
  assumes "wf_inst r" and "set_all host r kvs = Inr r'" and "m \<notin> fst ` set kvs"
    and "find_field (descriptors (inst_cls r)) m = Some (o2, t2)"
  shows "read_bytes (buffer r') o2 (sizeof t2) = read_bytes (buffer r) o2 (sizeof t2)"
  using assms
proof (induction kvs arbitrary: r)
  case Nil
  then show ?case by simp
next
  case (Cons kv kvs)
  obtain n v where kv: "kv = (n, v)" by (cases kv) auto
  with Cons.prems obtain r1 where r1: "tc_setattr host r n v = Inr r1" and rest: "set_all host r1 kvs = Inr r'"
    by (auto split: sum.splits)
  from Cons.prems(3) kv have ne: "m \<noteq> n" and notin: "m \<notin> fst ` set kvs" by auto
  have c: "inst_cls r1 = inst_cls r" using r1 by (rule tc_setattr_cls)
  have "read_bytes (buffer r') o2 (sizeof t2) = read_bytes (buffer r1) o2 (sizeof t2)"
    using tc_setattr_wf [OF Cons.prems(1) r1] rest notin Cons.prems(4) c
    by (intro Cons.IH) simp_all
  also have "\<dots> = read_bytes (buffer r) o2 (sizeof t2)"
    using Cons.prems(1) r1 ne Cons.prems(4) by (rule tc_setattr_other)
  finally show ?case .
qed

lemma set_all_stores:
  assumes "wf_inst r" and "set_all host r kvs = Inr r'" and "distinct (map fst kvs)"
    and "(n, v) \<in> set kvs" and "find_field (descriptors (inst_cls r)) n = Some (off, t)"
  shows "field_bytes host t v = Inr (read_bytes (buffer r') off (sizeof t))"
  using assms
proof (induction kvs arbitrary: r)
  case Nil
  then show ?case by simp
next
  case (Cons kv kvs)
  obtain m w where kv: "kv = (m, w)" by (cases kv) auto
  with Cons.prems obtain r1 where r1: "tc_setattr host r m w = Inr r1" and rest: "set_all host r1 kvs = Inr r'"
    by (auto split: sum.splits)
  have c: "inst_cls r1 = inst_cls r" using r1 by (rule tc_setattr_cls)
  have wf1: "wf_inst r1" using Cons.prems(1) r1 by (rule tc_setattr_wf)
  show ?case
  proof (cases "(n, v) = kv")
    case True
    with kv have nm: "m = n" "w = v" by auto
    from Cons.prems(3) kv nm have "n \<notin> fst ` set kvs" by auto
    with wf1 rest Cons.prems(5) c
    have "read_bytes (buffer r') off (sizeof t) = read_bytes (buffer r1) off (sizeof t)"
      by (intro set_all_other) simp_all
    moreover from Cons.prems(1) r1 Cons.prems(5) nm
    have "field_bytes host t v = Inr (read_bytes (buffer r1) off (sizeof t))"
      by (intro tc_setattr_stores) simp_all
    ultimately show ?thesis by simp
  next
    case False
    with Cons.prems(4) have mem: "(n, v) \<in> set kvs" by auto
    from Cons.prems(3) have dist: "distinct (map fst kvs)" by simp
    from Cons.prems(5) c have "find_field (descriptors (inst_cls r1)) n = Some (off, t)" by simp
    with wf1 rest dist mem show ?thesis by (rule Cons.IH)
  qed
qed

lemma le_int_le_bytes: "le_int (le_bytes n i) = i mod 256 ^ n"
proof (induction n arbitrary: i)
  case 0
  then show ?case by simp
next
  case (Suc n)
  have "uint (word_of_int i :: byte) = i mod 256"
    by (simp add: uint_word_of_int_eq take_bit_eq_mod)
  moreover have "i mod (256 * 256 ^ n) = 256 * (i div 256 mod 256 ^ n) + i mod 256"
    by (rule zmod_zmult2_eq) simp
  ultimately show ?case using Suc.IH [of "i div 256"] by simp
qed

lemma bytes_int_int_bytes: "bytes_int host sw (int_bytes host sw n i) = i mod 256 ^ n"
  by (simp add: bytes_int_def int_bytes_def le_int_le_bytes)

lemma pow_bytewidth: "(256::int) ^ bytewidth k = 2 ^ bitwidth k"
  by (cases k) (simp_all add: bytewidth_def)

lemma signed_take_bit_if:
  "signed_take_bit n (i::int) =
     (if 2 ^ n \<le> take_bit (Suc n) i then take_bit (Suc n) i - 2 ^ Suc n else take_bit (Suc n) i)"
proof -
  have a: "take_bit (Suc n) i = 2 ^ n * of_bool (bit i n) + take_bit n i"
    by (rule take_bit_Suc_from_most)
  have b: "take_bit n i < 2 ^ n" "0 \<le> take_bit n i" by simp_all
  have "bit i n \<longleftrightarrow> 2 ^ n \<le> take_bit (Suc n) i"
    using a b by (cases "bit i n") (simp_all add: not_le)
  then show ?thesis
    by (simp add: signed_take_bit_eq_take_bit_minus)
qed

lemma bitwidth_pos: "bitwidth k = Suc (bitwidth k - 1)"
  by (cases k) simp_all

lemma scalar_value_int:
  assumes "\<not> is_float k"
  shows "scalar_value host k sw (int_bytes host sw (bytewidth k) i) =
         PInt (if is_signed k then signed_take_bit (bitwidth k - 1) i else take_bit (bitwidth k) i)"
proof -
  have u: "bytes_int host sw (int_bytes host sw (bytewidth k) i) = take_bit (bitwidth k) i"
    by (simp add: bytes_int_int_bytes pow_bytewidth take_bit_eq_mod)
  have s: "signed_take_bit (bitwidth k - 1) i =
     (if 2 ^ (bitwidth k - 1) \<le> take_bit (bitwidth k) i
      then take_bit (bitwidth k) i - 2 ^ bitwidth k else take_bit (bitwidth k) i)"
    using signed_take_bit_if [of "bitwidth k - 1" i] bitwidth_pos [of k] by simp
  show ?thesis using assms u s by (simp add: scalar_value_def Let_def)
qed

lemma dict_set_keys: "fst ` set (dict_set d k v) = insert k (fst ` set d)"
proof (induction d)
  case Nil
  then show ?case by simp
next
  case (Cons a d)
  obtain k' v' where a: "a = (k', v')" by (cases a) auto
  show ?case
  proof (cases "k' = k")
    case True
    with a show ?thesis by simp
  next
    case False
    with a Cons.IH show ?thesis by (simp add: insert_commute)
  qed
qed

lemma dict_set_distinct: "distinct (map fst d) \<Longrightarrow> distinct (map fst (dict_set d k v))"
proof (induction d)
  case Nil
  then show ?case by simp
next
  case (Cons a d)
  then show ?case using dict_set_keys [of d k v] by (cases a) auto
qed

lemma map_of_dict_set: "map_of (dict_set d k v) = (map_of d)(k \<mapsto> v)"
  by (induction d) (auto simp: fun_eq_iff)

lemma dict_update_keys: "fst ` set (dict_update d kvs) = fst ` set d \<union> fst ` set kvs"
  unfolding dict_update_def
  by (induction kvs arbitrary: d) (auto simp: dict_set_keys)

lemma dict_update_distinct:
  "distinct (map fst d) \<Longrightarrow> distinct (map fst (dict_update d kvs))"
  unfolding dict_update_def
  by (induction kvs arbitrary: d) (auto simp: dict_set_distinct)



lemma MyStruct_defined:
  "new_class Little module_heap LittleEndianStruct MyStruct_attrs = (MyStruct_heap, Inr MyStruct)"
  by code_simp

lemma MyStruct_init:
  "tc_init Little MyStruct_heap MyStruct MyStruct_args [] = Inr MyStruct_record"
  by code_simp

lemma MyStruct_getattr:
  "map (tc_getattr Little MyStruct_record)
     [''magicnumber'', ''version'', ''value'', ''fvalue'', ''dvalue''] =
   [Some (PInt 3735928559), Some (PTuple [PInt 1, PInt 2, PInt 3, PInt 160]),
    Some (PInt 65534), Some (PFloat 4607182418800017408), Some (PFloat 4611686018427387904)]"
  by code_simp

lemma MyStruct_wf: "wf_class MyStruct"
  by code_simp

lemma zero_wf:
  "wf_class cls \<Longrightarrow> wf_inst \<lparr>inst_cls = cls, buffer = replicate (cls_size cls) 0, inst_dict = []\<rparr>"
  by (simp add: wf_inst_def)

lemma tc_init_set_all:
  assumes "tc_init host h cls args kwargs = Inr r"
  obtains l where "fields_ref cls = Some l"
    and "set_all host \<lparr>inst_cls = cls, buffer = replicate (cls_size cls) 0, inst_dict = []\<rparr>
           (dict_update (dict_update [] (zip (map fst (h ! l)) args)) kwargs) = Inr r"
  using assms by (auto simp: tc_init_def Let_def split: option.splits if_splits)

lemma tc_init_wf:
  assumes "wf_class cls" and "tc_init host h cls args kwargs = Inr r"
  shows "wf_inst r" and "inst_cls r = cls"
proof -
  from assms(2) obtain l where
    s: "set_all host \<lparr>inst_cls = cls, buffer = replicate (cls_size cls) 0, inst_dict = []\<rparr>
           (dict_update (dict_update [] (zip (map fst (h ! l)) args)) kwargs) = Inr r"
    by (rule tc_init_set_all)
  from zero_wf [OF assms(1)] s show "wf_inst r" by (rule set_all_wf)
  from set_all_cls [OF s] show "inst_cls r = cls" by simp
qed

lemma field_bytes_not_duplicate: "field_bytes host t v \<noteq> Inl DuplicateArgument"
proof (induction host t v rule: field_bytes.induct)
  case (1 host k sw v)
  then show ?case
    by (auto simp: scalar_bytes_def split: sum.splits pyval.splits option.splits)
next
  case (2 host k sw n vs)
  have "items_bytes host k sw ws \<noteq> Inl DuplicateArgument" for ws
    by (induction ws) (auto split: sum.splits)
  then show ?case by (auto split: sum.splits)
qed simp_all

lemma set_all_not_duplicate: "set_all host r kvs \<noteq> Inl DuplicateArgument"
proof (induction kvs arbitrary: r)
  case Nil
  then show ?case by simp
next
  case (Cons kv kvs)
  obtain n v where kv: "kv = (n, v)" by (cases kv) auto
  have "tc_setattr host r n v \<noteq> Inl DuplicateArgument"
    using field_bytes_not_duplicate
    by (auto simp: tc_setattr_def split: option.splits sum.splits)
  with Cons.IH kv show ?case by (auto split: sum.splits)
qed

lemma keys_zip: "set (map fst (zip ns args)) = set (take (length args) ns)"
proof -
  have "map fst (zip ns args) = take (length args) ns"
    by (simp add: map_fst_zip_take min_def)
  then show ?thesis by simp
qed

lemma kwargs_new_keys:
  "set (map fst (dict_update [] (zip ns args))) = set (take (length args) ns)"
  using dict_update_keys [of "[]" "zip ns args"] keys_zip [of ns args] by simp

lemma tc_init_stores:
  assumes "wf_class cls" and "tc_init host h cls args kwargs = Inr r" and "fields_ref cls = Some l"
    and "(n, v) \<in> set (dict_update (dict_update [] (zip (map fst (h ! l)) args)) kwargs)"
    and "find_field (descriptors cls) n = Some (off, t)"
  shows "field_bytes host t v = Inr (read_bytes (buffer r) off (sizeof t))"
proof -
  let ?d = "dict_update (dict_update [] (zip (map fst (h ! l)) args)) kwargs"
  let ?z = "\<lparr>inst_cls = cls, buffer = replicate (cls_size cls) 0, inst_dict = []\<rparr>"
  from assms(2,3) have s: "set_all host ?z ?d = Inr r"
    by (auto elim: tc_init_set_all)
  have d: "distinct (map fst ?d)"
    by (intro dict_update_distinct) simp
  from assms(5) have "find_field (descriptors (inst_cls ?z)) n = Some (off, t)" by simp
  with zero_wf [OF assms(1)] s d assms(4) show ?thesis by (rule set_all_stores)
qed

lemma read_zeros: "off + n \<le> m \<Longrightarrow> read_bytes (replicate m 0) off n = replicate n 0"
  by (simp add: read_bytes_def min_def)

lemma tc_init_unsupplied:
  assumes "wf_class cls" and "tc_init host h cls args kwargs = Inr r" and "fields_ref cls = Some l"
    and "n \<notin> set (take (length args) (map fst (h ! l)))" and "n \<notin> set (map fst kwargs)"
    and "find_field (descriptors cls) n = Some (off, t)"
  shows "read_bytes (buffer r) off (sizeof t) = replicate (sizeof t) 0"
proof -
  let ?d = "dict_update (dict_update [] (zip (map fst (h ! l)) args)) kwargs"
  let ?z = "\<lparr>inst_cls = cls, buffer = replicate (cls_size cls) 0, inst_dict = []\<rparr>"
  from assms(2,3) have s: "set_all host ?z ?d = Inr r"
    by (auto elim: tc_init_set_all)
  have "fst ` set ?d = set (take (length args) (map fst (h ! l))) \<union> set (map fst kwargs)"
    using dict_update_keys [of "dict_update [] (zip (map fst (h ! l)) args)" kwargs]
      kwargs_new_keys [of "map fst (h ! l)" args] by simp
  with assms(4,5) have notin: "n \<notin> fst ` set ?d" by simp
  from assms(6) have f: "find_field (descriptors (inst_cls ?z)) n = Some (off, t)" by simp
  from set_all_other [OF zero_wf [OF assms(1)] s notin f]
  have "read_bytes (buffer r) off (sizeof t) = read_bytes (replicate (cls_size cls) 0) off (sizeof t)"
    by simp
  moreover from find_field_in_buffer [OF zero_wf [OF assms(1)] f]
  have "off + sizeof t \<le> cls_size cls" by simp
  ultimately show ?thesis by (simp add: read_zeros)
qed

lemma MyBigStruct_defined:
  "new_class Little module_heap BigEndianStruct MyStruct_attrs = (MyBigStruct_heap, Inr MyBigStruct)"
  by code_simp

lemma MyBigStruct_init:
  "tc_init Little MyBigStruct_heap MyBigStruct MyStruct_args [] = Inr MyBigStruct_record"
  by code_simp

lemma MyBigStruct_from_bytes:
  "from_bytes MyBigStruct
     [222, 173, 190, 239, 1, 2, 3, 160, 255, 254, 0, 0, 63, 128, 0, 0, 64, 0, 0, 0, 0, 0, 0, 0] =
   Inr MyBigStruct_record"
  by code_simp

lemma MyBigStruct_getattr:
  "map (tc_getattr Little MyBigStruct_record)
     [''magicnumber'', ''version'', ''value'', ''fvalue'', ''dvalue''] =
   [Some (PInt 3735928559), Some (PTuple [PInt 1, PInt 2, PInt 3, PInt 160]),
    Some (PInt 65534), Some (PFloat 4607182418800017408), Some (PFloat 4611686018427387904)]"
  by code_simp

lemma scalar_value_wraparound:
  "\<not> is_float k \<Longrightarrow>
   scalar_value host k sw (int_bytes host sw (bytewidth k) i) = PInt (wraparound k i)"
  by (simp add: scalar_value_int wraparound_def)

lemma le_bytes_zero: "le_bytes n 0 = replicate n 0"
  by (induction n) simp_all

lemma int_bytes_zero: "int_bytes host sw n 0 = replicate n 0"
  by (simp add: int_bytes_def le_bytes_zero)

lemma wraparound_zero: "wraparound k 0 = 0"
  by (simp add: wraparound_def)

lemma scalar_value_zeros:
  "\<not> is_float k \<Longrightarrow> scalar_value host k sw (replicate (bytewidth k) 0) = PInt 0"
  using scalar_value_wraparound [of k host sw 0] by (simp add: int_bytes_zero wraparound_zero)

lemma items_bytes_ints:
  "\<not> is_float k \<Longrightarrow>
   items_bytes host k sw (map PInt js) = Inr (concat (map (int_bytes host sw (bytewidth k)) js))"
  by (induction js) (simp_all add: scalar_bytes_def)

lemma chunks_append:
  "\<forall>b \<in> set bss. length b = w \<Longrightarrow>
   chunks w (length bss + m) (concat bss @ rest) = bss @ chunks w m rest"
  by (induction bss) simp_all

lemma chunks_zeros: "chunks w m (replicate (m * w) 0) = replicate m (replicate w 0)"
proof (induction m)
  case 0
  then show ?case by simp
next
  case (Suc m)
  have "replicate (Suc m * w) (0::'a) = replicate w 0 @ replicate (m * w) 0"
    by (simp add: replicate_add)
  with Suc show ?case by simp
qed

lemma array_value_ints:
  assumes "\<not> is_float k" and "length js \<le> c"
  shows "field_bytes host (CArray k sw c) (PTuple (map PInt js)) =
           Inr (concat (map (int_bytes host sw (bytewidth k)) js) @
                replicate ((c - length js) * bytewidth k) 0)"
    and "field_value host (CArray k sw c)
           (concat (map (int_bytes host sw (bytewidth k)) js) @
            replicate ((c - length js) * bytewidth k) 0) =
         PTuple (map (\<lambda>i. PInt (wraparound k i)) js @ replicate (c - length js) (PInt 0))"
proof -
  show "field_bytes host (CArray k sw c) (PTuple (map PInt js)) =
           Inr (concat (map (int_bytes host sw (bytewidth k)) js) @
                replicate ((c - length js) * bytewidth k) 0)"
    using assms by (simp add: items_bytes_ints)
  let ?bss = "map (int_bytes host sw (bytewidth k)) js"
  have len: "\<forall>b \<in> set ?bss. length b = bytewidth k" by (simp add: length_int_bytes)
  have c: "c = length ?bss + (c - length js)" using assms(2) by simp
  have "chunks (bytewidth k) c (concat ?bss @ replicate ((c - length js) * bytewidth k) 0) =
        chunks (bytewidth k) (length ?bss + (c - length js))
          (concat ?bss @ replicate ((c - length js) * bytewidth k) 0)"
    using c by simp
  also have "\<dots> = ?bss @ chunks (bytewidth k) (c - length js) (replicate ((c - length js) * bytewidth k) 0)"
    using len by (rule chunks_append)
  also have "\<dots> = ?bss @ replicate (c - length js) (replicate (bytewidth k) 0)"
    by (simp add: chunks_zeros)
  finally show "field_value host (CArray k sw c)
           (concat ?bss @ replicate ((c - length js) * bytewidth k) 0) =
         PTuple (map (\<lambda>i. PInt (wraparound k i)) js @ replicate (c - length js) (PInt 0))"
    using assms(1) by (simp add: scalar_value_wraparound scalar_value_zeros comp_def)
qed

lemma tc_init_keyword:
  assumes "wf_class cls" and "fields_ref cls = Some l"
    and "find_field (descriptors cls) n = Some (off, t)" and "field_bytes host t v = Inr bs"
  shows "\<exists>r. tc_init host h cls [] [(n, v)] = Inr r \<and>
           tc_getattr host r n = Some (field_value host t bs)"
proof -
  let ?z = "\<lparr>inst_cls = cls, buffer = replicate (cls_size cls) 0, inst_dict = []\<rparr>"
  let ?r = "?z\<lparr>buffer := write_bytes (buffer ?z) off bs\<rparr>"
  have f: "find_field (descriptors (inst_cls ?z)) n = Some (off, t)" using assms(3) by simp
  from find_field_in_buffer [OF zero_wf [OF assms(1)] f] length_field_bytes [OF assms(4)]
  have inb: "off + length bs \<le> length (buffer ?z)" by simp
  have "tc_init host h cls [] [(n, v)] = Inr ?r"
    using assms(2,3,4) by (simp add: tc_init_def dict_update_def tc_setattr_def)
  moreover have "tc_getattr host ?r n = Some (field_value host t bs)"
    using assms(3) read_write_same [OF inb] length_field_bytes [OF assms(4)]
    by (simp add: tc_getattr_def)
  ultimately show ?thesis by blast
qed

lemma tc_init_getattr:
  assumes "wf_class cls" and "tc_init host h cls args kwargs = Inr r" and "fields_ref cls = Some l"
    and "(n, v) \<in> set (dict_update (dict_update [] (zip (map fst (h ! l)) args)) kwargs)"
    and "find_field (descriptors cls) n = Some (off, t)"
  shows "\<exists>bs. field_bytes host t v = Inr bs \<and> tc_getattr host r n = Some (field_value host t bs)"
proof -
  from tc_init_stores [OF assms]
  have b: "field_bytes host t v = Inr (read_bytes (buffer r) off (sizeof t))" .
  from tc_init_wf(2) [OF assms(1,2)] assms(5)
  have "tc_getattr host r n = Some (field_value host t (read_bytes (buffer r) off (sizeof t)))"
    by (simp add: tc_getattr_def)
  with b show ?thesis by blast
qed

lemma MyStruct_defined_on_big:
  "new_class Big module_heap LittleEndianStruct MyStruct_attrs =
     (MyBigStruct_heap, Inr (MyBigStruct\<lparr>cls_byteorder := Some Little\<rparr>))"
  by code_simp

lemma tc_setattr_padding:
  assumes "wf_inst r" and "tc_setattr host r n v = Inr r'" and "is_padding (inst_cls r) i"
  shows "buffer r' ! i = buffer r ! i"
proof (cases "find_field (descriptors (inst_cls r)) n")
  case None
  with assms(2) show ?thesis by (auto simp: tc_setattr_def)
next
  case (Some d)
  obtain off t where d: "d = (off, t)" by (cases d) auto
  with Some assms(2) obtain bs where bs: "field_bytes host t v = Inr bs"
    and r': "r' = r\<lparr>buffer := write_bytes (buffer r) off bs\<rparr>"
    by (auto simp: tc_setattr_def split: sum.splits)
  from find_field_in_buffer [OF assms(1)] Some d length_field_bytes [OF bs]
  have inb: "off + length bs \<le> length (buffer r)" by simp
  from Some d have "(n, off, t) \<in> set (descriptors (inst_cls r))" by (simp add: find_field_mem)
  with assms(3) have "\<not> (off \<le> i \<and> i < off + sizeof t)" by (auto simp: is_padding_def)
  with length_field_bytes [OF bs] have out: "\<not> (off \<le> i \<and> i < off + length bs)" by simp
  from assms(1,3) have "i < length (buffer r)" by (simp add: is_padding_def wf_inst_def)
  from nth_write_bytes [OF inb this] out r' show ?thesis by simp
qed

lemma set_all_padding:
  "wf_inst r \<Longrightarrow> set_all host r kvs = Inr r' \<Longrightarrow> is_padding (inst_cls r) i
   \<Longrightarrow> buffer r' ! i = buffer r ! i"
proof (induction kvs arbitrary: r)
  case Nil
  then show ?case by simp
next
  case (Cons kv kvs)
  obtain n v where kv: "kv = (n, v)" by (cases kv) auto
  with Cons.prems obtain r1 where r1: "tc_setattr host r n v = Inr r1"
    and rest: "set_all host r1 kvs = Inr r'"
    by (auto split: sum.splits)
  have c: "inst_cls r1 = inst_cls r" using r1 by (rule tc_setattr_cls)
  have wf1: "wf_inst r1" using Cons.prems(1) r1 by (rule tc_setattr_wf)
  from Cons.prems(3) c have "is_padding (inst_cls r1) i" by simp
  with wf1 rest have "buffer r' ! i = buffer r1 ! i" by (rule Cons.IH)
  also have "\<dots> = buffer r ! i" using Cons.prems(1) r1 Cons.prems(3) by (rule tc_setattr_padding)
  finally show ?case .
qed

lemma tc_init_padding:
  assumes "wf_class cls" and "tc_init host h cls args kwargs = Inr r" and "is_padding cls i"
  shows "to_bytes r ! i = 0"
proof -
  let ?z = "\<lparr>inst_cls = cls, buffer = replicate (cls_size cls) 0, inst_dict = []\<rparr>"
  from assms(2) obtain l where
    s: "set_all host ?z (dict_update (dict_update [] (zip (map fst (h ! l)) args)) kwargs) = Inr r"
    by (rule tc_init_set_all)
  from assms(3) have p: "is_padding (inst_cls ?z) i" by simp
  from set_all_padding [OF zero_wf [OF assms(1)] s p] assms(3)
  show ?thesis by (simp add: to_bytes_def is_padding_def)
qed

lemma tc_init_length:
  assumes "wf_class cls" and "tc_init host h cls args kwargs = Inr r"
  shows "length (to_bytes r) = cls_size cls"
  using tc_init_wf [OF assms] by (simp add: wf_inst_def to_bytes_def)








lemma concat_chunks: "length xs = n * w \<Longrightarrow> concat (chunks w n xs) = xs"
proof (induction n arbitrary: xs)
  case 0
  then show ?case by simp
next
  case (Suc n)
  then have "length (drop w xs) = n * w" by simp
  from Suc.IH [OF this] show ?case by simp
qed





lemma MyBaseStruct_defined:
  "new_class Little module_heap LittleEndianStruct MyBase_attrs = (MyBase_heap, Inr MyBaseStruct)"
  by code_simp

lemma MyDerivedStruct_defined:
  "new_class Little MyBase_heap MyBaseStruct MyDerived_attrs = (MyDerived_heap, Inr MyDerivedStruct)"
  by code_simp

lemma MyDerivedStruct_init:
  "tc_init Little MyDerived_heap MyDerivedStruct [PInt 1, PInt 2, PInt 3] [] = Inr MyDerived_record"
  "tc_init Little MyDerived_heap MyDerivedStruct []
     [(''common1'', PInt 1), (''common2'', PInt 2), (''special1'', PInt 3)] = Inr MyDerived_record"
  by code_simp+

lemma MyDerivedStruct_getattr:
  "map (tc_getattr Little MyDerived_record) [''common1'', ''common2'', ''special1''] =
     [Some (PInt 1), Some (PInt 2), Some (PInt 3)]"
  by code_simp

lemma new_fields_names:
  "new_fields swap anns = Inr own \<Longrightarrow>
   map fst own = filter (\<lambda>n. \<not> startswith_underscore n) (map fst anns)"
proof (induction anns arbitrary: own)
  case Nil
  then show ?case by simp
next
  case (Cons x anns)
  obtain aname atype where x: "x = (aname, atype)" by (cases x) auto
  show ?case
  proof (cases "startswith_underscore aname")
    case True
    with Cons x show ?thesis by simp
  next
    case False
    with Cons.prems x obtain t fs where "new_fields swap anns = Inr fs" and "own = (aname, t) # fs"
      by (auto split: sum.splits)
    with Cons.IH False x show ?thesis by simp
  qed
qed

lemma gettype_ok:
  "gettype' a \<noteq> NotCType \<Longrightarrow> \<exists>t. gettype a swap = Inr t \<and> t \<noteq> NotCType"
  by (cases "gettype' a") (auto simp: gettype_def)

lemma new_fields_ok:
  "\<forall>x \<in> set anns. \<not> startswith_underscore (fst x) \<longrightarrow> gettype' (snd x) \<noteq> NotCType \<Longrightarrow>
   \<exists>own. new_fields swap anns = Inr own \<and> (\<forall>f \<in> set own. snd f \<noteq> NotCType)"
proof (induction anns)
  case Nil
  then show ?case by simp
next
  case (Cons x anns)
  obtain aname atype where x: "x = (aname, atype)" by (cases x) auto
  from Cons obtain own where own: "new_fields swap anns = Inr own"
    and ok: "\<forall>f \<in> set own. snd f \<noteq> NotCType" by auto
  show ?case
  proof (cases "startswith_underscore aname")
    case True
    with own ok x show ?thesis by simp
  next
    case False
    with Cons.prems x have "gettype' atype \<noteq> NotCType" by simp
    then obtain t where "gettype atype swap = Inr t" and "t \<noteq> NotCType"
      using gettype_ok by blast
    with False own ok x show ?thesis by simp
  qed
qed

lemma foldl_add_field_types:
  "foldl (add_field pack) (ds, off, al) fs = (ds', off', al') \<Longrightarrow>
   map strip_offset ds' = map strip_offset ds @ fs"
proof (induction fs arbitrary: ds off al)
  case Nil
  then show ?case by simp
next
  case (Cons f fs)
  obtain n t where f: "f = (n, t)" by (cases f) auto
  let ?a = "field_align pack t"
  let ?p = "align_up off ?a"
  have step: "add_field pack (ds, off, al) f = (ds @ [(n, ?p, t)], ?p + sizeof t, max al ?a)"
    by (simp add: add_field_def Let_def f)
  from Cons.prems
  have "foldl (add_field pack) (add_field pack (ds, off, al) f) fs = (ds', off', al')"
    by (simp only: foldl_Cons)
  then have "foldl (add_field pack) (ds @ [(n, ?p, t)], ?p + sizeof t, max al ?a) fs = (ds', off', al')"
    by (simp only: step)
  from Cons.IH [OF this] f show ?case by (simp add: strip_offset_def)
qed



lemma struct_new_fields:
  assumes "struct_new h base (Some l) bo pack = Inr c"
  shows "fields_ref c = Some l" and "map strip_offset (descriptors c) = map strip_offset (descriptors base) @ h ! l"
proof -
  obtain ds off al where f: "foldl (add_field pack) (descriptors base, cls_size base, cls_align base) (h ! l) = (ds, off, al)"
    by (cases "foldl (add_field pack) (descriptors base, cls_size base, cls_align base) (h ! l)") auto
  with assms have c: "c = \<lparr>fields_ref = Some l, cls_byteorder = bo, cls_pack = pack,
                      descriptors = ds, cls_size = align_up off al, cls_align = al\<rparr>"
    by (auto simp: struct_new_def split: if_splits)
  then show "fields_ref c = Some l" by simp
  from foldl_add_field_types [OF f] c
  show "map strip_offset (descriptors c) = map strip_offset (descriptors base) @ h ! l" by simp
qed

lemma struct_new_ok:
  "\<forall>f \<in> set (h ! l). snd f \<noteq> NotCType \<Longrightarrow> \<exists>c. struct_new h base (Some l) bo pack = Inr c"
  by (auto simp: struct_new_def split: prod.splits)

lemma new_class_annotated:
  assumes "annotations a = Some anns" and "a_fields a = None"
  shows "new_class host h base a =
     (let bo = (case a_byteorder a of Some b \<Rightarrow> b | None \<Rightarrow> cls_byteorder base);
          pack = (case a_pack a of Some p \<Rightarrow> Some p | None \<Rightarrow> cls_pack base);
          fb = (case fields_ref base of Some l \<Rightarrow> h ! l | None \<Rightarrow> [])
      in case new_fields (bo \<noteq> None \<and> Some host \<noteq> bo) anns of
           Inl e \<Rightarrow> (h @ [fb], Inl e)
         | Inr own \<Rightarrow>
             (h @ [fb @ own], struct_new (h @ [fb @ own]) base (Some (length h)) bo pack))"
  using assms by (simp add: new_class_def Let_def split: sum.splits)

section \<open>The claims\<close>

text \<open>
  C1. A record built by \<^verbatim>\<open>TCStruct.__init__\<close> survives encoding and decoding: decoding
  the bytes of \<^verbatim>\<open>to_bytes\<close> with the same class succeeds, every field reads the same
  value in the decoded record as in the original (which holds the values as truncated
  at construction), and encoding the decoded record gives the same bytes again. The
  class is arbitrary, so this covers every byte order and every packing.
\<close>

theorem round_trip:
  assumes "wf_class cls" and "tc_init host h cls args kwargs = Inr r"
  shows "\<exists>r'. from_bytes cls (to_bytes r) = Inr r' \<and> to_bytes r' = to_bytes r \<and>
           (\<forall>n off t. find_field (descriptors cls) n = Some (off, t) \<longrightarrow>
              tc_getattr host r' n = tc_getattr host r n)"
proof -
  from tc_init_wf [OF assms] have len: "length (buffer r) = cls_size cls" and c: "inst_cls r = cls"
    by (simp_all add: wf_inst_def)
  let ?r' = "\<lparr>inst_cls = cls, buffer = buffer r, inst_dict = []\<rparr>"
  from len have "from_bytes cls (to_bytes r) = Inr ?r'"
    by (simp add: from_bytes_def to_bytes_def)
  moreover have "to_bytes ?r' = to_bytes r" by (simp add: to_bytes_def)
  moreover have "\<forall>n off t. find_field (descriptors cls) n = Some (off, t) \<longrightarrow>
              tc_getattr host ?r' n = tc_getattr host r n"
    using c by (simp add: tc_getattr_def)
  ultimately show ?thesis by blast
qed

text \<open>The structure of the test suite, built from its five values on a little-endian host.\<close>

theorem round_trip_witness:
  "wf_class MyStruct \<and> tc_init Little MyStruct_heap MyStruct MyStruct_args [] = Inr MyStruct_record \<and>
   (\<exists>r'. from_bytes MyStruct (to_bytes MyStruct_record) = Inr r' \<and>
      to_bytes r' = to_bytes MyStruct_record \<and>
      tc_getattr Little r' ''value'' = Some (PInt 65534))"
proof -
  have a: "wf_class MyStruct" by code_simp
  have r: "tc_init Little MyStruct_heap MyStruct MyStruct_args [] = Inr MyStruct_record"
    by code_simp
  have f: "find_field (descriptors MyStruct) ''value'' = Some (8, CSimple U16 False)"
    by code_simp
  have v: "tc_getattr Little MyStruct_record ''value'' = Some (PInt 65534)"
    by code_simp
  from round_trip [OF a r] f v a r show ?thesis by metis
qed

text \<open>
  C2. An integer given to an integer field is stored reduced to the width of the field
  in two's complement (\<open>take_bit\<close> for an unsigned field, \<open>signed_take_bit\<close> for a
  signed one) and the assignment cannot fail: for a scalar field and for an array
  field given a tuple of integers no longer than the array, construction from that
  keyword alone succeeds and the field reads the wrapped value; and in whatever record
  a construction returns, an integer field that was supplied an integer, by position or
  by name, reads its wrapped value. Host order and the order of the field are arbitrary.
\<close>

theorem int_field_wraps:
  assumes "wf_class cls" and "fields_ref cls = Some l" and "\<not> is_float k"
  shows "(find_field (descriptors cls) n = Some (off, CSimple k sw) \<longrightarrow>
            (\<exists>r. tc_init host h cls [] [(n, PInt i)] = Inr r \<and>
                 tc_getattr host r n = Some (PInt (wraparound k i)))) \<and>
         (find_field (descriptors cls) n = Some (off, CArray k sw c) \<and> length js \<le> c \<longrightarrow>
            (\<exists>r. tc_init host h cls [] [(n, PTuple (map PInt js))] = Inr r \<and>
                 tc_getattr host r n =
                   Some (PTuple (map (\<lambda>i. PInt (wraparound k i)) js @
                                 replicate (c - length js) (PInt 0))))) \<and>
         (find_field (descriptors cls) n = Some (off, CSimple k sw) \<and>
          tc_init host h cls args kwargs = Inr r \<and>
          (n, PInt i) \<in> set (dict_update (dict_update [] (zip (map fst (h ! l)) args)) kwargs) \<longrightarrow>
            tc_getattr host r n = Some (PInt (wraparound k i)))"
proof (intro conjI impI)
  assume f: "find_field (descriptors cls) n = Some (off, CSimple k sw)"
  have "field_bytes host (CSimple k sw) (PInt i) = Inr (int_bytes host sw (bytewidth k) i)"
    using assms(3) by (simp add: scalar_bytes_def)
  from tc_init_keyword [OF assms(1,2) f this, where h = h]
  show "\<exists>r. tc_init host h cls [] [(n, PInt i)] = Inr r \<and>
          tc_getattr host r n = Some (PInt (wraparound k i))"
    using assms(3) by (simp add: scalar_value_wraparound)
next
  assume "find_field (descriptors cls) n = Some (off, CArray k sw c) \<and> length js \<le> c"
  then have f: "find_field (descriptors cls) n = Some (off, CArray k sw c)"
    and le: "length js \<le> c" by simp_all
  from tc_init_keyword [OF assms(1,2) f array_value_ints(1) [OF assms(3) le], where h = h]
  show "\<exists>r. tc_init host h cls [] [(n, PTuple (map PInt js))] = Inr r \<and>
          tc_getattr host r n =
            Some (PTuple (map (\<lambda>i. PInt (wraparound k i)) js @ replicate (c - length js) (PInt 0)))"
    by (simp only: array_value_ints(2) [OF assms(3) le])
next
  assume a: "find_field (descriptors cls) n = Some (off, CSimple k sw) \<and>
    tc_init host h cls args kwargs = Inr r \<and>
    (n, PInt i) \<in> set (dict_update (dict_update [] (zip (map fst (h ! l)) args)) kwargs)"
  then have "\<exists>bs. field_bytes host (CSimple k sw) (PInt i) = Inr bs \<and>
      tc_getattr host r n = Some (field_value host (CSimple k sw) bs)"
    using tc_init_getattr [OF assms(1) _ assms(2)] by blast
  then show "tc_getattr host r n = Some (PInt (wraparound k i))"
    using assms(3) by (auto simp: scalar_bytes_def scalar_value_wraparound)
qed

text \<open>
  The values of the test suite: 4000 in an element of \<^verbatim>\<open>uint8_t[4]\<close> reads 160, and
  \<open>- 2\<close> in a \<^verbatim>\<open>uint16_t\<close> reads 65534, in the little-endian and in the big-endian
  structure.
\<close>

theorem int_field_wraps_witness:
  "wf_class MyStruct \<and> fields_ref MyStruct = Some 1 \<and> \<not> is_float U16 \<and> \<not> is_float U8 \<and>
   wf_class MyBigStruct \<and> fields_ref MyBigStruct = Some 1 \<and>
   (\<exists>r. tc_init Little MyStruct_heap MyStruct [] [(''value'', PInt (- 2))] = Inr r \<and>
        tc_getattr Little r ''value'' = Some (PInt 65534)) \<and>
   (\<exists>r. tc_init Little MyBigStruct_heap MyBigStruct [] [(''value'', PInt (- 2))] = Inr r \<and>
        tc_getattr Little r ''value'' = Some (PInt 65534)) \<and>
   (\<exists>r. tc_init Little MyStruct_heap MyStruct [] [(''version'', PTuple (map PInt [1, 2, 3, 4000]))] = Inr r \<and>
        tc_getattr Little r ''version'' = Some (PTuple [PInt 1, PInt 2, PInt 3, PInt 160]))"
proof -
  have a: "wf_class MyStruct" "fields_ref MyStruct = Some 1" "\<not> is_float U16" "\<not> is_float U8"
    "wf_class MyBigStruct" "fields_ref MyBigStruct = Some 1"
    by code_simp+
  have f: "find_field (descriptors MyStruct) ''value'' = Some (8, CSimple U16 False)"
    "find_field (descriptors MyBigStruct) ''value'' = Some (8, CSimple U16 True)"
    "find_field (descriptors MyStruct) ''version'' = Some (4, CArray U8 False 4)"
    by code_simp+
  have w: "wraparound U16 (- 2) = 65534" "wraparound U8 1 = 1" "wraparound U8 2 = 2"
    "wraparound U8 3 = 3" "wraparound U8 4000 = 160"
    by (simp_all add: wraparound_def take_bit_eq_mod)
  from int_field_wraps [OF a(1,2,3), where n = "''value''" and off = 8 and sw = False
      and host = Little and h = MyStruct_heap and i = "- 2"] f(1) w(1)
  have 1: "\<exists>r. tc_init Little MyStruct_heap MyStruct [] [(''value'', PInt (- 2))] = Inr r \<and>
        tc_getattr Little r ''value'' = Some (PInt 65534)" by simp
  from int_field_wraps [OF a(5,6,3), where n = "''value''" and off = 8 and sw = True
      and host = Little and h = MyBigStruct_heap and i = "- 2"] f(2) w(1)
  have 2: "\<exists>r. tc_init Little MyBigStruct_heap MyBigStruct [] [(''value'', PInt (- 2))] = Inr r \<and>
        tc_getattr Little r ''value'' = Some (PInt 65534)" by simp
  from int_field_wraps [OF a(1,2,4), where n = "''version''" and off = 4 and sw = False
      and host = Little and h = MyStruct_heap and c = 4 and js = "[1, 2, 3, 4000]"]
    f(3) w(2-5)
  have 3: "\<exists>r. tc_init Little MyStruct_heap MyStruct [] [(''version'', PTuple (map PInt [1, 2, 3, 4000]))] = Inr r \<and>
        tc_getattr Little r ''version'' = Some (PTuple [PInt 1, PInt 2, PInt 3, PInt 160])"
    by simp
  from a 1 2 3 show ?thesis by blast
qed

text \<open>
  C3. The structure of the test suite, fields \<^verbatim>\<open>uint32_t\<close>, \<^verbatim>\<open>uint8_t[4]\<close>,
  \<^verbatim>\<open>uint16_t\<close>, \<^verbatim>\<open>float32_t\<close>, \<^verbatim>\<open>float64_t\<close>, on either host. Without
  \<^verbatim>\<open>_pack_\<close> the fields lie at 0, 4, 8, 12 and 16 and the size is 24: nothing precedes
  the \<^verbatim>\<open>uint16_t\<close> at 8, two bytes of padding precede the \<^verbatim>\<open>float32_t\<close>, and these
  two bytes are zero in every record that construction returns. With \<^verbatim>\<open>_pack_ = 1\<close>
  every field starts where the one before ends and the size is 22, the sum of the sizes.
  Each entry below is name, offset, size.
\<close>

theorem layout_example:
  "map_option layout_of
     (defined_class (new_class host module_heap LittleEndianStruct MyStruct_attrs)) =
     Some ([(''magicnumber'', 0, 4), (''version'', 4, 4), (''value'', 8, 2),
            (''fvalue'', 12, 4), (''dvalue'', 16, 8)], 24) \<and>
   map_option layout_of
     (defined_class (new_class host module_heap LittleEndianStruct
        (MyStruct_attrs\<lparr>a_pack := Some 1\<rparr>))) =
     Some ([(''magicnumber'', 0, 4), (''version'', 4, 4), (''value'', 8, 2),
            (''fvalue'', 10, 4), (''dvalue'', 14, 8)], 4 + 4 + 2 + 4 + 8) \<and>
   (\<forall>h c args kwargs r.
      new_class host module_heap LittleEndianStruct MyStruct_attrs = (h, Inr c) \<and>
      tc_init host h c args kwargs = Inr r \<longrightarrow>
      length (to_bytes r) = 24 \<and> to_bytes r ! 10 = 0 \<and> to_bytes r ! 11 = 0)"
proof (intro conjI allI impI)
  show "map_option layout_of
     (defined_class (new_class host module_heap LittleEndianStruct MyStruct_attrs)) =
     Some ([(''magicnumber'', 0, 4), (''version'', 4, 4), (''value'', 8, 2),
            (''fvalue'', 12, 4), (''dvalue'', 16, 8)], 24)"
  proof (cases host)
    case Little
    show ?thesis unfolding Little by code_simp
  next
    case Big
    show ?thesis unfolding Big by code_simp
  qed
  show "map_option layout_of
     (defined_class (new_class host module_heap LittleEndianStruct
        (MyStruct_attrs\<lparr>a_pack := Some 1\<rparr>))) =
     Some ([(''magicnumber'', 0, 4), (''version'', 4, 4), (''value'', 8, 2),
            (''fvalue'', 10, 4), (''dvalue'', 14, 8)], 4 + 4 + 2 + 4 + 8)"
  proof (cases host)
    case Little
    show ?thesis unfolding Little by code_simp
  next
    case Big
    show ?thesis unfolding Big by code_simp
  qed
next
  fix h c args kwargs r
  assume a: "new_class host module_heap LittleEndianStruct MyStruct_attrs = (h, Inr c) \<and>
      tc_init host h c args kwargs = Inr r"
  then have wf: "wf_class c" using new_class_wf [OF wf_TCStruct(2)] by blast
  have "c = MyStruct \<or> c = MyBigStruct\<lparr>cls_byteorder := Some Little\<rparr>"
    using a MyStruct_defined MyStruct_defined_on_big by (cases host) simp_all
  moreover have "cls_size MyStruct = 24" "is_padding MyStruct 10" "is_padding MyStruct 11"
    "cls_size (MyBigStruct\<lparr>cls_byteorder := Some Little\<rparr>) = 24"
    "is_padding (MyBigStruct\<lparr>cls_byteorder := Some Little\<rparr>) 10"
    "is_padding (MyBigStruct\<lparr>cls_byteorder := Some Little\<rparr>) 11"
    by code_simp+
  ultimately have "cls_size c = 24" "is_padding c 10" "is_padding c 11" by auto
  with a tc_init_length [OF wf] tc_init_padding [OF wf]
  show "length (to_bytes r) = 24" "to_bytes r ! 10 = 0" "to_bytes r ! 11 = 0"
    by auto
qed

text \<open>The record of the test suite has its two padding bytes zero.\<close>

theorem layout_example_witness:
  "new_class Little module_heap LittleEndianStruct MyStruct_attrs = (MyStruct_heap, Inr MyStruct) \<and>
   tc_init Little MyStruct_heap MyStruct MyStruct_args [] = Inr MyStruct_record \<and>
   length (to_bytes MyStruct_record) = 24 \<and>
   to_bytes MyStruct_record ! 10 = 0 \<and> to_bytes MyStruct_record ! 11 = 0"
proof -
  have a: "new_class Little module_heap LittleEndianStruct MyStruct_attrs = (MyStruct_heap, Inr MyStruct)"
    by code_simp
  have b: "tc_init Little MyStruct_heap MyStruct MyStruct_args [] = Inr MyStruct_record"
    by code_simp
  from layout_example [of Little] a b show ?thesis by blast
qed





text \<open>
  C6, as the code has it. The claim fails: there is no check for missing fields, and a
  construction that supplies one field of five succeeds.
\<close>

theorem construct_partial_counterexample:
  "tc_init Little MyStruct_heap MyStruct [PInt 1] [] =
     Inr \<lparr>inst_cls = MyStruct,
          buffer = [1, 0, 0, 0, 0, 0, 0, 0, 0, 0, 0, 0, 0, 0, 0, 0, 0, 0, 0, 0, 0, 0, 0, 0],
          inst_dict = []\<rparr>"
  by code_simp

text \<open>
  C6, amended. Construction does not fail for a field left without a value: with no
  argument at all it succeeds with the zeroed record, and in every record that
  construction returns, a field supplied neither by position nor by name holds zero
  bytes.
\<close>

theorem unsupplied_fields_zero:
  assumes "wf_class cls" and "fields_ref cls = Some l"
  shows "tc_init host h cls [] [] =
           Inr \<lparr>inst_cls = cls, buffer = replicate (cls_size cls) 0, inst_dict = []\<rparr> \<and>
         (\<forall>args kwargs r n off t.
            tc_init host h cls args kwargs = Inr r \<and>
            find_field (descriptors cls) n = Some (off, t) \<and>
            n \<notin> set (take (length args) (map fst (h ! l))) \<and> n \<notin> set (map fst kwargs) \<longrightarrow>
            read_bytes (to_bytes r) off (sizeof t) = replicate (sizeof t) 0)"
proof
  show "tc_init host h cls [] [] =
           Inr \<lparr>inst_cls = cls, buffer = replicate (cls_size cls) 0, inst_dict = []\<rparr>"
    using assms(2) by (simp add: tc_init_def dict_update_def)
  show "\<forall>args kwargs r n off t.
            tc_init host h cls args kwargs = Inr r \<and>
            find_field (descriptors cls) n = Some (off, t) \<and>
            n \<notin> set (take (length args) (map fst (h ! l))) \<and> n \<notin> set (map fst kwargs) \<longrightarrow>
            read_bytes (to_bytes r) off (sizeof t) = replicate (sizeof t) 0"
    using tc_init_unsupplied [OF assms(1) _ assms(2)] by (auto simp: to_bytes_def)
qed

theorem unsupplied_fields_zero_witness:
  "wf_class MyStruct \<and> fields_ref MyStruct = Some 1 \<and>
   tc_init Little MyStruct_heap MyStruct [] [] =
     Inr \<lparr>inst_cls = MyStruct, buffer = replicate 24 0, inst_dict = []\<rparr>"
proof -
  have a: "wf_class MyStruct" by code_simp
  have b: "fields_ref MyStruct = Some 1" by code_simp
  have c: "cls_size MyStruct = 24" by code_simp
  from unsupplied_fields_zero [OF a b, of Little MyStruct_heap] a b c show ?thesis by simp
qed

text \<open>
  C7. \<^verbatim>\<open>TCStruct.__init__\<close> raises its \<^verbatim>\<open>TypeError\<close> (got multiple values for argument)
  exactly when one of the names filled from the positional arguments, the first
  \<open>length args\<close> names of \<^verbatim>\<open>_fields_\<close>, is also a keyword. The result is then the
  error and no record.
\<close>

theorem duplicate_argument_iff:
  assumes "fields_ref cls = Some l"
  shows "tc_init host h cls args kwargs = Inl DuplicateArgument \<longleftrightarrow>
         (\<exists>n. n \<in> set (take (length args) (map fst (h ! l))) \<and> n \<in> set (map fst kwargs))"
  using assms set_all_not_duplicate kwargs_new_keys [of "map fst (h ! l)" args]
  by (auto simp: tc_init_def Let_def)

theorem duplicate_argument_iff_witness:
  "fields_ref MyStruct = Some 1 \<and>
   tc_init Little MyStruct_heap MyStruct [PInt 1] [(''magicnumber'', PInt 2)] = Inl DuplicateArgument \<and>
   tc_init Little MyStruct_heap MyStruct [PInt 1] [(''value'', PInt 2)] \<noteq> Inl DuplicateArgument"
proof -
  have a: "fields_ref MyStruct = Some 1" by code_simp
  have n: "take (length [PInt 1]) (map fst (MyStruct_heap ! 1)) = [''magicnumber'']" by code_simp
  from duplicate_argument_iff [OF a, of Little MyStruct_heap "[PInt 1]" "[(''magicnumber'', PInt 2)]"]
    duplicate_argument_iff [OF a, of Little MyStruct_heap "[PInt 1]" "[(''value'', PInt 2)]"] a n
  show ?thesis by simp
qed

text \<open>
  C8. \<^verbatim>\<open>from_bytes\<close> fails with the \<^verbatim>\<open>ValueError\<close> of \<^verbatim>\<open>from_buffer_copy\<close> exactly
  when the data is shorter than the size of the class, and then yields no record. On
  data at least that long it succeeds and the record holds the first \<open>cls_size\<close> bytes:
  decoding the data and decoding its prefix of that length give the same record.
\<close>

theorem decode_length:
  "(from_bytes cls data = Inl BufferTooShort \<longleftrightarrow> length data < cls_size cls) \<and>
   (length data < cls_size cls \<longrightarrow> (\<forall>r. from_bytes cls data \<noteq> Inr r)) \<and>
   (cls_size cls \<le> length data \<longrightarrow>
      from_bytes cls data =
        Inr \<lparr>inst_cls = cls, buffer = take (cls_size cls) data, inst_dict = []\<rparr> \<and>
      from_bytes cls data = from_bytes cls (take (cls_size cls) data))"
  by (simp add: from_bytes_def)

theorem decode_length_witness:
  "from_bytes MyStruct (replicate 23 1) = Inl BufferTooShort \<and>
   from_bytes MyStruct (replicate 24 1 @ [2, 3]) =
     Inr \<lparr>inst_cls = MyStruct, buffer = replicate 24 1, inst_dict = []\<rparr>"
proof -
  have s: "cls_size MyStruct = 24" by code_simp
  from decode_length [of MyStruct "replicate 23 1"]
    decode_length [of MyStruct "replicate 24 1 @ [2, 3]"] s
  show ?thesis by simp
qed

text \<open>
  C9, as the code has it. The claim fails: neither the metaclass nor \<^verbatim>\<open>ctypes\<close> compares
  field names. A class derived from \<^verbatim>\<open>MyBaseStruct\<close> that declares \<^verbatim>\<open>common1\<close> again
  is created, and its \<^verbatim>\<open>_fields_\<close> names \<^verbatim>\<open>common1\<close> twice.
\<close>

theorem duplicate_name_counterexample:
  "new_class Little MyBase_heap MyBaseStruct Redeclared_attrs =
     (Redeclared_heap, Inr RedeclaredStruct) \<and>
   map fst (Redeclared_heap ! 2) = [''common1'', ''common2'', ''common1'']"
  by code_simp

text \<open>
  C9, amended. A definition through annotations does not fail on account of names:
  whenever the fields of the base are C types and every annotation whose name does not
  start with an underscore resolves to a C type, the class is created, and its
  \<^verbatim>\<open>_fields_\<close> is the list of the base followed by one entry for each such annotation,
  in order, repeated names included.
\<close>

theorem no_uniqueness_check:
  assumes "annotations a = Some anns" and "a_fields a = None" and "fields_ref base = Some lb"
    and "\<forall>f \<in> set (h ! lb). snd f \<noteq> NotCType"
    and "\<forall>x \<in> set anns. \<not> startswith_underscore (fst x) \<longrightarrow> gettype' (snd x) \<noteq> NotCType"
  shows "\<exists>cls own. new_class host h base a = (h @ [h ! lb @ own], Inr cls) \<and>
           fields_ref cls = Some (length h) \<and>
           map fst own = filter (\<lambda>n. \<not> startswith_underscore n) (map fst anns)"
proof -
  let ?bo = "case a_byteorder a of Some b \<Rightarrow> b | None \<Rightarrow> cls_byteorder base"
  let ?pack = "case a_pack a of Some p \<Rightarrow> Some p | None \<Rightarrow> cls_pack base"
  let ?swap = "?bo \<noteq> None \<and> Some host \<noteq> ?bo"
  from new_fields_ok [OF assms(5), of ?swap]
  obtain own where nf: "new_fields ?swap anns = Inr own"
    and ok: "\<forall>f \<in> set own. snd f \<noteq> NotCType" by blast
  let ?h' = "h @ [h ! lb @ own]"
  from assms(4) ok have "\<forall>f \<in> set (?h' ! length h). snd f \<noteq> NotCType" by auto
  from struct_new_ok [OF this, of base ?bo ?pack]
  obtain c where c: "struct_new ?h' base (Some (length h)) ?bo ?pack = Inr c" by blast
  from new_class_annotated [OF assms(1,2), of host h base] assms(3) nf c
  have "new_class host h base a = (?h', Inr c)" by (simp add: Let_def)
  with struct_new_fields(1) [OF c] new_fields_names [OF nf] show ?thesis by blast
qed

theorem no_uniqueness_check_witness:
  "fields_ref MyBaseStruct = Some 1 \<and> a_fields Redeclared_attrs = None \<and>
   (\<exists>cls own. new_class Little MyBase_heap MyBaseStruct Redeclared_attrs =
        (MyBase_heap @ [MyBase_heap ! 1 @ own], Inr cls) \<and>
      fields_ref cls = Some 2 \<and> map fst own = [''common1''])"
proof -
  have a: "annotations Redeclared_attrs = Some [(''common1'', TC U8 None)]"
    "a_fields Redeclared_attrs = None" "fields_ref MyBaseStruct = Some 1"
    by code_simp+
  have b: "\<forall>f \<in> set (MyBase_heap ! 1). snd f \<noteq> NotCType"
    "\<forall>x \<in> set [(''common1'', TC U8 None)].
       \<not> startswith_underscore (fst x) \<longrightarrow> gettype' (snd x) \<noteq> NotCType"
    by code_simp+
  have c: "length MyBase_heap = 2"
    "filter (\<lambda>n. \<not> startswith_underscore n) (map fst [(''common1'', TC U8 None)]) = [''common1'']"
    by code_simp+
  from no_uniqueness_check [OF a b, of Little] a(2,3) c show ?thesis by simp
qed

text \<open>
  C10, as the code has it. The claim fails when the class body binds \<^verbatim>\<open>_fields_\<close> to
  the list of an ancestor (\<^verbatim>\<open>_fields_ = MyBaseStruct._fields_\<close>) and annotates a field:
  \<^verbatim>\<open>setdefault\<close> returns that very list and \<^verbatim>\<open>extend\<close> appends to it. The list at
  address 1 is the \<^verbatim>\<open>_fields_\<close> of \<^verbatim>\<open>MyBaseStruct\<close>; after the definition it names
  three fields, and \<^verbatim>\<open>MyBaseStruct(1, 2, 3)\<close>, whose third argument was dropped before,
  now sets an attribute \<^verbatim>\<open>special1\<close>.
\<close>

theorem aliased_fields_counterexample:
  "fields_ref MyBaseStruct = Some 1 \<and>
   MyBase_heap ! 1 = [(''common1'', CSimple U32 False), (''common2'', CSimple U32 False)] \<and>
   new_class Little MyBase_heap MyBaseStruct Aliasing_attrs =
     ([[], [(''common1'', CSimple U32 False), (''common2'', CSimple U32 False),
            (''special1'', CSimple U32 False)]],
      Inr (MyDerivedStruct\<lparr>fields_ref := Some 1\<rparr>)) \<and>
   map_sum id inst_dict (tc_init Little MyBase_heap MyBaseStruct [PInt 1, PInt 2, PInt 3] []) =
     Inr [] \<and>
   map_sum id inst_dict
     (tc_init Little (fst (new_class Little MyBase_heap MyBaseStruct Aliasing_attrs))
        MyBaseStruct [PInt 1, PInt 2, PInt 3] []) = Inr [(''special1'', PInt 3)]"
  by code_simp

text \<open>
  C10, amended. A class definition whose body does not bind \<^verbatim>\<open>_fields_\<close> leaves every
  existing list as it was (the fields of the ancestor are copied into a new list). A
  definition whose body binds \<^verbatim>\<open>_fields_\<close> to a list allocates nothing and can change
  that one list only. The layout of a class is part of its value and never changes.
\<close>

theorem definition_frame:
  assumes "new_class host h base a = (h', res)"
  shows "(a_fields a = None \<longrightarrow> take (length h) h' = h) \<and>
         (\<forall>l. a_fields a = Some l \<longrightarrow>
            length h' = length h \<and> (\<forall>l'. l' \<noteq> l \<longrightarrow> h' ! l' = h ! l'))"
  using assms
  by (cases "annotations a"; cases "a_fields a")
    (auto simp: new_class_def Let_def split: sum.splits)

theorem definition_frame_witness:
  "new_class Little MyBase_heap MyBaseStruct MyDerived_attrs = (MyDerived_heap, Inr MyDerivedStruct) \<and>
   a_fields MyDerived_attrs = None \<and> take (length MyBase_heap) MyDerived_heap = MyBase_heap"
proof -
  have a: "new_class Little MyBase_heap MyBaseStruct MyDerived_attrs = (MyDerived_heap, Inr MyDerivedStruct)"
    and b: "a_fields MyDerived_attrs = None"
    by code_simp+
  from definition_frame [OF a] a b show ?thesis by simp
qed

end
